theory Spec2Isabelle
  imports Main "HOL-Library.Word" "HOL-Library.AList"
begin

text \<open>
  A shallow embedding of \<open>src/App.tsx\<close>: the thumbnail resolver with the regular
  expression it matches, the state of the \<open>App\<close> component with its handlers as functions
  from state to state, the store of the objects that the handlers share by reference,
  \<open>localStorage\<close>, the JSON text of the snapshot, and the exceptions that the render of the
  data can raise. The rest of the presentation (markup, animation, scrolling) is left out.
\<close>

section \<open>JavaScript strings\<close>

text \<open>
  A JavaScript string is a sequence of UTF-16 code units, and \<open>length\<close> counts code units.
  The model keeps exactly that: a string is a list of 16-bit words. \<open>js\<close> writes an ASCII
  literal of the source as such a list.
\<close>

type_synonym jschar = "16 word"
type_synonym jsstring = "jschar list"

definition js :: "string \<Rightarrow> jsstring" where
  "js s = map (\<lambda>c. of_nat (of_char c)) s"

section \<open>The regular expression of \<open>getYoutubeId\<close>\<close>

text \<open>
  The source matches the URL against
  \<^verbatim>\<open>/^.*(youtu.be\/|v\/|u\/\w\/|embed\/|watch\?v=|&v=)([^#&?]*).*/\<close>
  The fragment of regular expressions it uses is modelled with the backtracking semantics of
  ECMAScript: a matcher takes the number of code units already consumed, the rest of the
  input, the captures so far and a continuation; a greedy star tries the longest repetition
  first and gives characters back one at a time; an alternative tries its left branch first
  and the right branch only when the left one (with everything that follows) fails.
\<close>

datatype cls = Lit jschar | Dot | WordCh | NoneOf jsstring

definition isLineTerminator :: "jschar \<Rightarrow> bool" where
  "isLineTerminator c \<longleftrightarrow> c = 0x0A \<or> c = 0x0D \<or> c = 0x2028 \<or> c = 0x2029"

definition isWordChar :: "jschar \<Rightarrow> bool" where
  "isWordChar c \<longleftrightarrow>
     (0x61 \<le> c \<and> c \<le> 0x7A) \<or> (0x41 \<le> c \<and> c \<le> 0x5A) \<or> (0x30 \<le> c \<and> c \<le> 0x39) \<or> c = 0x5F"

fun cls_match :: "cls \<Rightarrow> jschar \<Rightarrow> bool" where
  "cls_match (Lit a) c = (c = a)"
| "cls_match Dot c = (\<not> isLineTerminator c)"
| "cls_match WordCh c = isWordChar c"
| "cls_match (NoneOf xs) c = (c \<notin> set xs)"

datatype re = Eps | Bol | Ch cls | Star cls | Seq re re | Alt re re | Grp nat re

type_synonym caps = "nat \<rightharpoonup> jsstring"

fun star_loop :: "cls \<Rightarrow> nat \<Rightarrow> jsstring \<Rightarrow> (nat \<Rightarrow> jsstring \<Rightarrow> 'r option) \<Rightarrow> 'r option" where
  "star_loop c n [] k = k n []"
| "star_loop c n (x # xs) k =
     (if cls_match c x
      then (case star_loop c (Suc n) xs k of Some r \<Rightarrow> Some r | None \<Rightarrow> k n (x # xs))
      else k n (x # xs))"

fun rmatch :: "re \<Rightarrow> nat \<Rightarrow> jsstring \<Rightarrow> caps \<Rightarrow> (nat \<Rightarrow> jsstring \<Rightarrow> caps \<Rightarrow> 'r option) \<Rightarrow> 'r option" where
  "rmatch Eps n s cs k = k n s cs"
| "rmatch Bol n s cs k = (if n = 0 then k n s cs else None)"
| "rmatch (Ch c) n s cs k =
     (case s of [] \<Rightarrow> None | x # xs \<Rightarrow> if cls_match c x then k (Suc n) xs cs else None)"
| "rmatch (Star c) n s cs k = star_loop c n s (\<lambda>n' s'. k n' s' cs)"
| "rmatch (Seq a b) n s cs k = rmatch a n s cs (\<lambda>n' s' cs'. rmatch b n' s' cs' k)"
| "rmatch (Alt a b) n s cs k =
     (case rmatch a n s cs k of Some r \<Rightarrow> Some r | None \<Rightarrow> rmatch b n s cs k)"
| "rmatch (Grp i a) n s cs k =
     rmatch a n s cs (\<lambda>n' s' cs'. k n' s' (cs'(i \<mapsto> take (n' - n) s)))"

text \<open>
  \<open>String.prototype.match\<close> with a non-global expression runs \<open>RegExp.prototype.exec\<close>:
  the match is tried at index 0, then at index 1, and so on up to the end of the input.
  The result maps a group number to the substring the group captured.
\<close>

fun exec_from :: "re \<Rightarrow> nat \<Rightarrow> jsstring \<Rightarrow> caps option" where
  "exec_from r n [] = rmatch r n [] Map.empty (\<lambda>_ _ cs. Some cs)"
| "exec_from r n (x # xs) =
     (case rmatch r n (x # xs) Map.empty (\<lambda>_ _ cs. Some cs) of
        Some cs \<Rightarrow> Some cs
      | None \<Rightarrow> exec_from r (Suc n) xs)"

definition lit :: "string \<Rightarrow> re" where
  "lit s = foldr (\<lambda>c r. Seq (Ch (Lit (of_nat (of_char c)))) r) s Eps"

text \<open>Group 1 of the expression: the six alternatives, in the order of the source.\<close>

definition url_shapes :: re where
  "url_shapes =
     Alt (Seq (lit ''youtu'') (Seq (Ch Dot) (lit ''be/'')))
    (Alt (lit ''v/'')
    (Alt (Seq (lit ''u/'') (Seq (Ch WordCh) (lit ''/'')))
    (Alt (lit ''embed/'')
    (Alt (lit ''watch?v='')
         (lit ''&v='')))))"

definition regExp :: re where
  "regExp =
     Seq Bol (Seq (Star Dot)
       (Seq (Grp 1 url_shapes)
         (Seq (Grp 2 (Star (NoneOf (js ''#&?''))))
              (Star Dot))))"

section \<open>Types and helper functions of the source\<close>

text \<open>
  The exceptions that occur in this program. \<open>InvalidChild\<close> is the \<open>Error\<close> that React raises
  when an object is given to it as a child of an element.
\<close>

datatype js_error = TypeError | SyntaxError | QuotaExceededError | InvalidChild

record CareerItem =
  date :: jsstring
  title :: jsstring
  role :: jsstring

text \<open>
  The fields \<open>id\<close> and \<open>title\<close> of \<open>WorkItem\<close> are written \<open>id_work\<close> and \<open>title_work\<close>:
  \<open>id\<close> is a constant of HOL and \<open>title\<close> is a field of \<open>CareerItem\<close>.
\<close>

record WorkItem =
  id_work :: int
  title_work :: jsstring
  img :: jsstring
  url :: jsstring

text \<open>
  \<open>match[2].length\<close> raises a \<open>TypeError\<close> when group 2 did not take part in the match;
  that branch is kept in the model.
\<close>

definition getYoutubeId :: "jsstring \<Rightarrow> js_error + jsstring option" where
  "getYoutubeId u =
     (case exec_from regExp 0 u of
        None \<Rightarrow> Inr None
      | Some m \<Rightarrow>
          (case m 2 of
             None \<Rightarrow> Inl TypeError
           | Some g \<Rightarrow> if length g = 11 then Inr (Some g) else Inr None))"

text \<open>A string is truthy exactly when it is not empty.\<close>

definition getThumbnail :: "WorkItem \<Rightarrow> js_error + jsstring" where
  "getThumbnail work =
     (if img work \<noteq> [] then Inr (img work)
      else case getYoutubeId (url work) of
             Inl e \<Rightarrow> Inl e
           | Inr (Some ytId) \<Rightarrow>
               Inr (js ''https://img.youtube.com/vi/'' @ ytId @ js ''/maxresdefault.jpg'')
           | Inr None \<Rightarrow> Inr (js ''https://placehold.co/600x400/111/333?text=NO+IMAGE''))"

section \<open>The state of the component\<close>

text \<open>
  Objects are shared by reference in JavaScript, and the editor of the source writes into
  \<open>CareerItem\<close> and \<open>WorkItem\<close> objects in place (\<^verbatim>\<open>newC[idx].date = ...\<close>). These objects
  therefore live in an explicit store, and an array of items is a list of addresses.
  \<open>SiteData\<close> objects and the arrays themselves are never written in place (the source
  builds a new one with a spread, \<open>filter\<close> or \<open>map\<close> each time), so they are plain values.
  Cells of the store at or beyond \<open>nextCareer\<close> and \<open>nextWork\<close> are not allocated yet.
\<close>

record SiteData =
  profileImg :: jsstring
  bio :: jsstring
  career :: "nat list"
  works :: "nat list"

record js_heap =
  careerObjs :: "nat \<Rightarrow> CareerItem"
  workObjs :: "nat \<Rightarrow> WorkItem"
  nextCareer :: nat
  nextWork :: nat

text \<open>
  \<open>localStorage\<close>: the stored items, and whether the browser would accept a given write
  (\<open>setItem\<close> raises \<open>QuotaExceededError\<close> when it does not). Reading and removing
  an item do not fail.
\<close>

record storage =
  items :: "jsstring \<rightharpoonup> jsstring"
  accepts :: "jsstring \<Rightarrow> jsstring \<Rightarrow> bool"

definition getItem :: "jsstring \<Rightarrow> storage \<Rightarrow> jsstring option" where
  "getItem k st = items st k"

definition setItem :: "jsstring \<Rightarrow> jsstring \<Rightarrow> storage \<Rightarrow> js_error + storage" where
  "setItem k v st =
     (if accepts st k v then Inr (st\<lparr>items := (items st)(k \<mapsto> v)\<rparr>) else Inl QuotaExceededError)"

definition removeItem :: "jsstring \<Rightarrow> storage \<Rightarrow> storage" where
  "removeItem k st = st\<lparr>items := (items st)(k := None)\<rparr>"

text \<open>
  The five state cells of \<open>App\<close>, the store of item objects and \<open>localStorage\<close>. A handler
  runs on the state of the render that created it and returns the next state together with
  what it shows to the user or the console.
\<close>

record app =
  data :: SiteData
  editingData :: SiteData
  isAdminOpen :: bool
  isAuth :: bool
  passInput :: jsstring
  heap :: js_heap
  localStorage :: storage

datatype effect = Alert jsstring | ConsoleError jsstring | Uncaught js_error

text \<open>The constant \<open>DEFAULT_DATA\<close> and the item objects its literal creates when the module loads.\<close>

definition DEFAULT_DATA :: SiteData where
  "DEFAULT_DATA =
     \<lparr>profileImg = js ''https://images.unsplash.com/photo-1573496359142-b8d87734a5a2?q=80&w=1000&auto=format&fit=crop'',
      bio = [0xBCF5, 0xC7A1, 0xD55C, 0x0020, 0xC815, 0xBCF4, 0xB97C, 0x0020, 0xB204, 0xAD6C,
             0xB098, 0x0020, 0xC774, 0xD574, 0xD560, 0x0020, 0xC218, 0x0020, 0xC788, 0xB294,
             0x0020, 0xC601, 0xC0C1, 0xC73C, 0xB85C, 0x0020, 0xB9CC, 0xB4ED, 0xB2C8, 0xB2E4,
             0x002E, 0x000A, 0xB2E8, 0xC21C, 0xD55C, 0x0020, 0xB098, 0xC5F4, 0xC744, 0x0020,
             0xB118, 0xC5B4, 0x0020, 0xAD6C, 0xC870, 0xC640, 0x0020, 0xB9E5, 0xB77D, 0xC744,
             0x0020, 0xC911, 0xC2EC, 0xC73C, 0xB85C, 0x0020, 0xD3B8, 0xC9D1, 0xD569, 0xB2C8,
             0xB2E4, 0x002E],
      career = [0, 1, 2],
      works = [0, 1, 2, 3, 4, 5]\<rparr>"

definition module_heap :: js_heap where
  "module_heap =
     \<lparr>careerObjs = (\<lambda>_. \<lparr>date = [], title = [], role = []\<rparr>)
        (0 := \<lparr>date = [0x0032, 0x0030, 0x0032, 0x0032, 0x0020, 0x2014, 0x0020, 0x0032, 0x0030,
                       0x0032, 0x0035],
               title = [0xD55C, 0xAD6D, 0xD0D0, 0xC0AC, 0xC800, 0xB110, 0xB9AC, 0xC998, 0xC13C,
                        0xD130],
               role = [0xB274, 0xC2A4, 0x0020, 0xBC0F, 0x0020, 0xB2E4, 0xD050, 0xBA58, 0xD130,
                       0xB9AC, 0x0020, 0xD3B8, 0xC9D1, 0x0020, 0xCD1D, 0xAD04]\<rparr>,
         1 := \<lparr>date = js ''2021'',
               title = [0xACBD, 0xAE30, 0xCF58, 0xD150, 0xCE20, 0xC9C4, 0xD765, 0xC6D0],
               role = [0xC0AC, 0xC5C5, 0xAE30, 0xD68D, 0x0020, 0xBC0F, 0x0020, 0xD504, 0xB85C,
                       0xC81D, 0xD2B8, 0x0020, 0xCD1D, 0xAD04]\<rparr>,
         2 := \<lparr>date = [0x0032, 0x0030, 0x0031, 0x0032, 0x0020, 0x2014, 0x0020, 0x0032, 0x0030,
                       0x0031, 0x0037],
               title = [0xB18D, 0xD611, 0xC740, 0xD589],
               role = [0xC218, 0xC2E0, 0x0020, 0xBC0F, 0x0020, 0xC740, 0xD589, 0x0020, 0xC5C5,
                       0xBB34, 0x0020, 0xC804, 0xBC18]\<rparr>),
      workObjs = (\<lambda>_. \<lparr>id_work = 0, title_work = [], img = [], url = []\<rparr>)
        (0 := \<lparr>id_work = 1, title_work = js ''Visual Archive_1'', img = [],
               url = js ''https://www.youtube.com/watch?v=aqz-KE-bpKQ''\<rparr>,
         1 := \<lparr>id_work = 2, title_work = js ''Visual Archive_2'', img = [],
               url = js ''https://www.youtube.com/watch?v=dQw4w9WgXcQ''\<rparr>,
         2 := \<lparr>id_work = 3, title_work = js ''Visual Archive_3'', img = [], url = []\<rparr>,
         3 := \<lparr>id_work = 4, title_work = js ''Visual Archive_4'', img = [], url = []\<rparr>,
         4 := \<lparr>id_work = 5, title_work = js ''Visual Archive_5'', img = [], url = []\<rparr>,
         5 := \<lparr>id_work = 6, title_work = js ''Visual Archive_6'', img = [], url = []\<rparr>),
      nextCareer = 3,
      nextWork = 6\<rparr>"

text \<open>The key of the persisted snapshot, the same literal in all three places of the source.\<close>

definition storage_key :: jsstring where
  "storage_key = js ''aeju_portfolio_data''"

text \<open>\<open>useState\<close>: the state of a freshly mounted component.\<close>

definition initial_app :: "storage \<Rightarrow> app" where
  "initial_app st =
     \<lparr>data = DEFAULT_DATA, editingData = DEFAULT_DATA, isAdminOpen = False, isAuth = False,
      passInput = [], heap = module_heap, localStorage = st\<rparr>"

section \<open>The handlers of the component\<close>

text \<open>
  \<open>handleAdminTrigger\<close> stores the reference \<open>data\<close> itself in \<open>editingData\<close>; nothing is
  copied. (The delayed focus of the input field is presentation and is left out.)
\<close>

definition handleAdminTrigger :: "app \<Rightarrow> app \<times> effect list" where
  "handleAdminTrigger s = (s\<lparr>editingData := data s, isAdminOpen := True, passInput := []\<rparr>, [])"

definition handlePasswordSubmit :: "app \<Rightarrow> app \<times> effect list" where
  "handlePasswordSubmit s =
     (if passInput s = js ''0818'' then (s\<lparr>isAuth := True\<rparr>, [])
      else (s\<lparr>passInput := []\<rparr>,
            [Alert [0x004B, 0x0065, 0x0079, 0xAC00, 0x0020, 0xC62C, 0xBC14, 0xB974, 0xC9C0,
                    0x0020, 0xC54A, 0xC2B5, 0xB2C8, 0xB2E4, 0x002E]]))"

definition closeAdmin :: "app \<Rightarrow> app \<times> effect list" where
  "closeAdmin s = (s\<lparr>isAdminOpen := False, isAuth := False, passInput := []\<rparr>, [])"

text \<open>\<open>resetToDefault\<close>; the first argument is the answer of \<open>window.confirm\<close>.\<close>

definition resetToDefault :: "bool \<Rightarrow> app \<Rightarrow> app \<times> effect list" where
  "resetToDefault confirmed s =
     (if confirmed
      then (s\<lparr>localStorage := removeItem storage_key (localStorage s),
               data := DEFAULT_DATA, editingData := DEFAULT_DATA,
               isAdminOpen := False, isAuth := False\<rparr>,
            [Alert [0xCD08, 0xAE30, 0xD654, 0xB418, 0xC5C8, 0xC2B5, 0xB2C8, 0xB2E4, 0x002E]])
      else (s, []))"

text \<open>The key field of the form: \<^verbatim>\<open>onChange={(e) => setPassInput(e.target.value)}\<close>.\<close>

definition setPassInput :: "jsstring \<Rightarrow> app \<Rightarrow> app \<times> effect list" where
  "setPassInput v s = (s\<lparr>passInput := v\<rparr>, [])"

text \<open>The two text inputs for the portrait URL and the statement.\<close>

definition setProfileImage :: "jsstring \<Rightarrow> app \<Rightarrow> app \<times> effect list" where
  "setProfileImage v s = (s\<lparr>editingData := (editingData s)\<lparr>profileImg := v\<rparr>\<rparr>, [])"

definition setBio :: "jsstring \<Rightarrow> app \<Rightarrow> app \<times> effect list" where
  "setBio v s = (s\<lparr>editingData := (editingData s)\<lparr>bio := v\<rparr>\<rparr>, [])"

text \<open>
  The three inputs of a career row:
  \<^verbatim>\<open>const newC = [...editingData.career]; newC[idx].date = e.target.value;\<close>
  \<^verbatim>\<open>setEditingData({...editingData, career: newC});\<close>
  The array is copied, the object at \<open>idx\<close> is not: the assignment writes into the object
  that every holder of its address sees. An index outside the array reads \<open>undefined\<close>, and
  the assignment raises a \<open>TypeError\<close> before any state is set.
\<close>

datatype career_field = Date | Title | Role

fun set_career_field :: "career_field \<Rightarrow> jsstring \<Rightarrow> CareerItem \<Rightarrow> CareerItem" where
  "set_career_field Date v c = c\<lparr>date := v\<rparr>"
| "set_career_field Title v c = c\<lparr>title := v\<rparr>"
| "set_career_field Role v c = c\<lparr>role := v\<rparr>"

definition updateCareerItem :: "nat \<Rightarrow> career_field \<Rightarrow> jsstring \<Rightarrow> app \<Rightarrow> app \<times> effect list" where
  "updateCareerItem idx f v s =
     (let newC = career (editingData s) in
      if idx < length newC
      then (s\<lparr>heap := (heap s)\<lparr>careerObjs := (careerObjs (heap s))
                  (newC ! idx := set_career_field f v (careerObjs (heap s) (newC ! idx)))\<rparr>,
               editingData := (editingData s)\<lparr>career := newC\<rparr>\<rparr>, [])
      else (s, [Uncaught TypeError]))"

text \<open>The three text inputs of a work entry, written the same way.\<close>

datatype work_field = WTitle | WImg | WUrl

fun set_work_field :: "work_field \<Rightarrow> jsstring \<Rightarrow> WorkItem \<Rightarrow> WorkItem" where
  "set_work_field WTitle v w = w\<lparr>title_work := v\<rparr>"
| "set_work_field WImg v w = w\<lparr>img := v\<rparr>"
| "set_work_field WUrl v w = w\<lparr>url := v\<rparr>"

definition updateWorkField :: "nat \<Rightarrow> work_field \<Rightarrow> jsstring \<Rightarrow> app \<Rightarrow> app \<times> effect list" where
  "updateWorkField idx f v s =
     (let newW = works (editingData s) in
      if idx < length newW
      then (s\<lparr>heap := (heap s)\<lparr>workObjs := (workObjs (heap s))
                  (newW ! idx := set_work_field f v (workObjs (heap s) (newW ! idx)))\<rparr>,
               editingData := (editingData s)\<lparr>works := newW\<rparr>\<rparr>, [])
      else (s, [Uncaught TypeError]))"

text \<open>
  CREATE NEW ENTRY: a new object \<^verbatim>\<open>{ id: Date.now(), title: 'New Archive', img: '', url: '' }\<close>
  is appended to a copy of the array. The first argument is the reading of the clock.
\<close>

definition addWork :: "int \<Rightarrow> app \<Rightarrow> app \<times> effect list" where
  "addWork now s =
     (let r = nextWork (heap s) in
      (s\<lparr>heap := (heap s)\<lparr>workObjs := (workObjs (heap s))
                 (r := \<lparr>id_work = now, title_work = js ''New Archive'', img = [], url = []\<rparr>),
               nextWork := Suc r\<rparr>,
          editingData := (editingData s)\<lparr>works := works (editingData s) @ [r]\<rparr>\<rparr>, []))"

text \<open>PURGE: \<^verbatim>\<open>editingData.works.filter((_, i) => i !== idx)\<close>.\<close>

definition removeWork :: "nat \<Rightarrow> app \<Rightarrow> app \<times> effect list" where
  "removeWork idx s =
     (let newW = map snd (filter (\<lambda>p. fst p \<noteq> idx) (enumerate 0 (works (editingData s)))) in
      (s\<lparr>editingData := (editingData s)\<lparr>works := newW\<rparr>\<rparr>, []))"

text \<open>
  The indices that reach this handler. The PURGE buttons are rendered by
  \<^verbatim>\<open>editingData.works.map((w, idx) => ...)\<close> inside the panel, which is shown when \<open>isAdminOpen\<close>
  and \<open>isAuth\<close> hold: one button for every entry of the draft, carrying the index of its entry.
\<close>

definition purge_buttons :: "app \<Rightarrow> nat list" where
  "purge_buttons s =
     (if isAdminOpen s \<and> isAuth s then [0..<length (works (editingData s))] else [])"

text \<open>
  \<open>handleFileUpload\<close> starts a \<open>FileReader\<close> and returns; the callback \<open>onloadend\<close> runs in a
  later event. The callback is a closure over the \<open>editingData\<close> of the render in which the
  upload was started and over the target. \<open>handleFileUpload\<close> returns that closure (none when
  no file was chosen); \<open>onloadend\<close> is the callback, applied to the data URL that was read and
  to the state at the time it fires. (A read that fails, where \<open>reader.result\<close> is \<open>null\<close>,
  is not modelled.)
\<close>

datatype upload_target = Profile | Work int

record upload =
  captured :: SiteData
  target :: upload_target

definition handleFileUpload :: "bool \<Rightarrow> upload_target \<Rightarrow> app \<Rightarrow> upload option" where
  "handleFileUpload file t s =
     (if file then Some \<lparr>captured = editingData s, target = t\<rparr> else None)"

text \<open>
  \<^verbatim>\<open>editingData.works.map(w => w.id === target.id ? { ...w, img: base64 } : w)\<close>:
  a matching entry is replaced by a new object, the others keep their address.
\<close>

fun newWorks :: "jsstring \<Rightarrow> int \<Rightarrow> nat list \<Rightarrow> js_heap \<Rightarrow> nat list \<times> js_heap" where
  "newWorks base64 i [] h = ([], h)"
| "newWorks base64 i (r # rs) h =
     (if id_work (workObjs h r) = i
      then (let r' = nextWork h;
                h' = h\<lparr>workObjs := (workObjs h)(r' := (workObjs h r)\<lparr>img := base64\<rparr>),
                       nextWork := Suc r'\<rparr>;
                res = newWorks base64 i rs h'
            in (r' # fst res, snd res))
      else (let res = newWorks base64 i rs h in (r # fst res, snd res)))"

definition onloadend :: "upload \<Rightarrow> jsstring \<Rightarrow> app \<Rightarrow> app \<times> effect list" where
  "onloadend up base64 s =
     (case target up of
        Profile \<Rightarrow> (s\<lparr>editingData := (captured up)\<lparr>profileImg := base64\<rparr>\<rparr>, [])
      | Work i \<Rightarrow>
          (let res = newWorks base64 i (works (captured up)) (heap s) in
           (s\<lparr>heap := snd res, editingData := (captured up)\<lparr>works := fst res\<rparr>\<rparr>, [])))"

section \<open>JSON text\<close>

text \<open>
  The snapshot is the text that \<open>JSON.stringify\<close> writes and \<open>JSON.parse\<close> reads. Both are
  modelled on code units, after the grammar of ECMA-404 and the algorithms of ECMA-262.
  \<open>JSON_parse\<close> accepts every JSON text: a tokenizer, then a pushdown parser over the tokens;
  \<open>None\<close> is the \<open>SyntaxError\<close> that \<open>JSON.parse\<close> raises. A number is kept as its literal;
  an object is the list of its members in the order of their first occurrence, a repeated
  key overwriting the earlier value.
\<close>

datatype json = JNull | JBool bool | JNum jsstring | JStr jsstring | JArr "json list"
  | JObj "(jsstring \<times> json) list"

datatype token = TLBrace | TRBrace | TLBrack | TRBrack | TColon | TComma
  | TStr jsstring | TNum jsstring | TTrue | TFalse | TNull

definition isDigit :: "jschar \<Rightarrow> bool" where
  "isDigit c \<longleftrightarrow> 0x30 \<le> c \<and> c \<le> 0x39"

definition isWhiteSpace :: "jschar \<Rightarrow> bool" where
  "isWhiteSpace c \<longleftrightarrow> c = 0x20 \<or> c = 0x09 \<or> c = 0x0A \<or> c = 0x0D"

definition hexval :: "jschar \<Rightarrow> jschar option" where
  "hexval c =
     (if 0x30 \<le> c \<and> c \<le> 0x39 then Some (c - 0x30)
      else if 0x61 \<le> c \<and> c \<le> 0x66 then Some (c - 0x61 + 10)
      else if 0x41 \<le> c \<and> c \<le> 0x46 then Some (c - 0x41 + 10)
      else None)"

definition hex4 :: "jschar \<Rightarrow> jschar \<Rightarrow> jschar \<Rightarrow> jschar \<Rightarrow> jschar option" where
  "hex4 a b c d =
     (case (hexval a, hexval b, hexval c, hexval d) of
        (Some x, Some y, Some z, Some w) \<Rightarrow> Some (x * 4096 + y * 256 + z * 16 + w)
      | _ \<Rightarrow> None)"

definition unescape :: "jschar \<Rightarrow> jschar option" where
  "unescape e =
     (if e = 0x22 then Some 0x22
      else if e = 0x5C then Some 0x5C
      else if e = 0x2F then Some 0x2F
      else if e = 0x62 then Some 0x08
      else if e = 0x66 then Some 0x0C
      else if e = 0x6E then Some 0x0A
      else if e = 0x72 then Some 0x0D
      else if e = 0x74 then Some 0x09
      else None)"

text \<open>
  The rest of a string literal after its opening quote: the string it denotes, and what
  follows the closing quote.
\<close>

definition cons_fst :: "'a \<Rightarrow> ('a list \<times> 'b) option \<Rightarrow> ('a list \<times> 'b) option" where
  "cons_fst x r = map_option (\<lambda>p. (x # fst p, snd p)) r"

fun lex_string :: "jsstring \<Rightarrow> (jsstring \<times> jsstring) option" where
  "lex_string [] = None"
| "lex_string (c # cs) =
     (if c = 0x22 then Some ([], cs)
      else if c = 0x5C then
        (case cs of
           [] \<Rightarrow> None
         | e # es \<Rightarrow>
             if e = 0x75 then
               (case es of
                  h1 # h2 # h3 # h4 # rest \<Rightarrow>
                    (case hex4 h1 h2 h3 h4 of
                       None \<Rightarrow> None
                     | Some u \<Rightarrow> cons_fst u (lex_string rest))
                | _ \<Rightarrow> None)
             else
               (case unescape e of
                  None \<Rightarrow> None
                | Some u \<Rightarrow> cons_fst u (lex_string es)))
      else if c < 0x20 then None
      else cons_fst c (lex_string cs))"

text \<open>
  A number literal: an optional minus sign, an integer part, an optional fraction, an
  optional exponent.
\<close>

fun lex_int :: "jsstring \<Rightarrow> (jsstring \<times> jsstring) option" where
  "lex_int [] = None"
| "lex_int (c # cs) =
     (if c = 0x30 then Some ([c], cs)
      else if isDigit c then Some (c # takeWhile isDigit cs, dropWhile isDigit cs)
      else None)"

fun lex_frac :: "jsstring \<Rightarrow> (jsstring \<times> jsstring) option" where
  "lex_frac (c # cs) =
     (if c = 0x2E then
        (case cs of
           [] \<Rightarrow> None
         | d # ds \<Rightarrow> if isDigit d then Some (c # d # takeWhile isDigit ds, dropWhile isDigit ds)
                     else None)
      else Some ([], c # cs))"
| "lex_frac [] = Some ([], [])"

fun lex_exp_digits :: "jsstring \<Rightarrow> (jsstring \<times> jsstring) option" where
  "lex_exp_digits [] = None"
| "lex_exp_digits (d # ds) =
     (if isDigit d then Some (d # takeWhile isDigit ds, dropWhile isDigit ds) else None)"

fun lex_exp :: "jsstring \<Rightarrow> (jsstring \<times> jsstring) option" where
  "lex_exp (c # cs) =
     (if c = 0x65 \<or> c = 0x45 then
        (case cs of
           [] \<Rightarrow> None
         | g # gs \<Rightarrow>
             if g = 0x2B \<or> g = 0x2D then cons_fst c (cons_fst g (lex_exp_digits gs))
             else cons_fst c (lex_exp_digits cs))
      else Some ([], c # cs))"
| "lex_exp [] = Some ([], [])"

definition lex_unsigned :: "jsstring \<Rightarrow> (jsstring \<times> jsstring) option" where
  "lex_unsigned s =
     (case lex_int s of
        None \<Rightarrow> None
      | Some (i, r1) \<Rightarrow>
          (case lex_frac r1 of
             None \<Rightarrow> None
           | Some (f, r2) \<Rightarrow>
               (case lex_exp r2 of
                  None \<Rightarrow> None
                | Some (e, r3) \<Rightarrow> Some (i @ f @ e, r3))))"

fun lex_number :: "jsstring \<Rightarrow> (jsstring \<times> jsstring) option" where
  "lex_number [] = None"
| "lex_number (c # cs) =
     (if c = 0x2D then cons_fst c (lex_unsigned cs) else lex_unsigned (c # cs))"

text \<open>Every literal consumes input; the tokenizer terminates.\<close>

lemma cons_fst_Some: "cons_fst x r = Some (a, b) \<Longrightarrow> \<exists>a'. r = Some (a', b)"
  by (cases r) (auto simp: cons_fst_def)

lemma lex_string_step:
  "lex_string (c # cs) = Some (str, r) \<Longrightarrow>
   r = cs \<or> (\<exists>t a'. lex_string t = Some (a', r) \<and> length t \<le> length cs)"
  by (auto split: if_splits list.splits option.splits dest!: cons_fst_Some
      intro: le_refl le_SucI)

lemma lex_string_length: "lex_string s = Some (str, r) \<Longrightarrow> length r < length s"
proof (induction "length s" arbitrary: s str rule: less_induct)
  case less
  from less.prems obtain c cs where s: "s = c # cs" by (cases s) auto
  from lex_string_step [of c cs str r] less.prems s consider
      "r = cs" | t a' where "lex_string t = Some (a', r)" "length t \<le> length cs"
    by blast
  then show ?case
  proof cases
    case 1
    with s show ?thesis by simp
  next
    case 2
    with less.hyps [of t a'] s show ?thesis by simp
  qed
qed

lemma length_dropWhile_Suc:
  "length (dropWhile P xs) < Suc (length xs)"
  "length (dropWhile P xs) \<le> Suc (length xs)"
  "length (dropWhile P xs) \<le> Suc (Suc (length xs))"
  by (simp_all add: less_Suc_eq_le le_SucI length_dropWhile_le)

lemma lex_int_length: "lex_int s = Some (l, r) \<Longrightarrow> length r < length s"
  by (cases s) (auto split: if_splits simp: length_dropWhile_Suc)

lemma lex_frac_length: "lex_frac s = Some (l, r) \<Longrightarrow> length r \<le> length s"
  by (cases s) (auto split: if_splits list.splits simp: length_dropWhile_Suc)

lemma lex_exp_digits_length: "lex_exp_digits s = Some (l, r) \<Longrightarrow> length r \<le> length s"
  by (cases s) (auto split: if_splits simp: length_dropWhile_Suc)

lemma lex_exp_length: "lex_exp s = Some (l, r) \<Longrightarrow> length r \<le> length s"
  by (cases s)
     (auto split: if_splits list.splits dest!: cons_fst_Some lex_exp_digits_length
           simp: le_SucI length_dropWhile_Suc)

lemma lex_unsigned_length: "lex_unsigned s = Some (l, r) \<Longrightarrow> length r < length s"
  unfolding lex_unsigned_def
  by (auto split: option.splits dest!: lex_int_length lex_frac_length lex_exp_length)

lemma lex_number_length: "lex_number s = Some (l, r) \<Longrightarrow> length r < length s"
  by (cases s) (auto split: if_splits dest!: cons_fst_Some lex_unsigned_length)

function lex :: "jsstring \<Rightarrow> token list option" where
  "lex [] = Some []"
| "lex (c # cs) =
     (if isWhiteSpace c then lex cs
      else if c = 0x7B then map_option (Cons TLBrace) (lex cs)
      else if c = 0x7D then map_option (Cons TRBrace) (lex cs)
      else if c = 0x5B then map_option (Cons TLBrack) (lex cs)
      else if c = 0x5D then map_option (Cons TRBrack) (lex cs)
      else if c = 0x3A then map_option (Cons TColon) (lex cs)
      else if c = 0x2C then map_option (Cons TComma) (lex cs)
      else if c = 0x22 then
        (case lex_string cs of
           None \<Rightarrow> None
         | Some (str, rest) \<Rightarrow> map_option (Cons (TStr str)) (lex rest))
      else if c = 0x2D \<or> isDigit c then
        (case lex_number (c # cs) of
           None \<Rightarrow> None
         | Some (l, rest) \<Rightarrow> map_option (Cons (TNum l)) (lex rest))
      else if take 4 (c # cs) = js ''true'' then map_option (Cons TTrue) (lex (drop 4 (c # cs)))
      else if take 5 (c # cs) = js ''false'' then map_option (Cons TFalse) (lex (drop 5 (c # cs)))
      else if take 4 (c # cs) = js ''null'' then map_option (Cons TNull) (lex (drop 4 (c # cs)))
      else None)"
  by pat_completeness auto
termination
  by (relation "measure length")
     (auto dest: lex_string_length lex_number_length simp: less_Suc_eq_le le_SucI
           simp del: lex_number.simps)

text \<open>
  The parser. A frame is an array or an object under construction; \<open>FKey\<close> is an object
  whose next member has its key and awaits its value. The mode says what may come next.
\<close>

datatype frame = FArr "json list" | FObj "(jsstring \<times> json) list"
  | FKey "(jsstring \<times> json) list" jsstring

datatype pmode = PValue | PValueOrEnd | PKey | PKeyOrEnd | PColon | PAfter | PDone json

fun deliver :: "json \<Rightarrow> frame list \<Rightarrow> (pmode \<times> frame list) option" where
  "deliver v [] = Some (PDone v, [])"
| "deliver v (FArr xs # st) = Some (PAfter, FArr (xs @ [v]) # st)"
| "deliver v (FKey ms k # st) = Some (PAfter, FObj (AList.update k v ms) # st)"
| "deliver v (FObj ms # st) = None"

fun close_array :: "frame list \<Rightarrow> (pmode \<times> frame list) option" where
  "close_array (FArr xs # st) = deliver (JArr xs) st"
| "close_array _ = None"

fun close_object :: "frame list \<Rightarrow> (pmode \<times> frame list) option" where
  "close_object (FObj ms # st) = deliver (JObj ms) st"
| "close_object _ = None"

fun open_key :: "jsstring \<Rightarrow> frame list \<Rightarrow> (pmode \<times> frame list) option" where
  "open_key k (FObj ms # st) = Some (PColon, FKey ms k # st)"
| "open_key k _ = None"

fun start_value :: "token \<Rightarrow> frame list \<Rightarrow> (pmode \<times> frame list) option" where
  "start_value TNull st = deliver JNull st"
| "start_value TTrue st = deliver (JBool True) st"
| "start_value TFalse st = deliver (JBool False) st"
| "start_value (TNum l) st = deliver (JNum l) st"
| "start_value (TStr s) st = deliver (JStr s) st"
| "start_value TLBrack st = Some (PValueOrEnd, FArr [] # st)"
| "start_value TLBrace st = Some (PKeyOrEnd, FObj [] # st)"
| "start_value _ st = None"

fun after_value :: "token \<Rightarrow> frame list \<Rightarrow> (pmode \<times> frame list) option" where
  "after_value TComma (FArr xs # st) = Some (PValue, FArr xs # st)"
| "after_value TComma (FObj ms # st) = Some (PKey, FObj ms # st)"
| "after_value TRBrack st = close_array st"
| "after_value TRBrace st = close_object st"
| "after_value _ _ = None"

fun pstep :: "pmode \<Rightarrow> token \<Rightarrow> frame list \<Rightarrow> (pmode \<times> frame list) option" where
  "pstep PValue t st = start_value t st"
| "pstep PValueOrEnd t st = (if t = TRBrack then close_array st else start_value t st)"
| "pstep PKey t st = (case t of TStr k \<Rightarrow> open_key k st | _ \<Rightarrow> None)"
| "pstep PKeyOrEnd t st =
     (case t of TStr k \<Rightarrow> open_key k st | TRBrace \<Rightarrow> close_object st | _ \<Rightarrow> None)"
| "pstep PColon t st = (if t = TColon then Some (PValue, st) else None)"
| "pstep PAfter t st = after_value t st"
| "pstep (PDone v) t st = None"

fun prun :: "pmode \<Rightarrow> frame list \<Rightarrow> token list \<Rightarrow> (pmode \<times> frame list) option" where
  "prun m st [] = Some (m, st)"
| "prun m st (t # ts) =
     (case pstep m t st of None \<Rightarrow> None | Some (m', st') \<Rightarrow> prun m' st' ts)"

definition parse_tokens :: "token list \<Rightarrow> json option" where
  "parse_tokens ts =
     (case prun PValue [] ts of
        Some (PDone v, []) \<Rightarrow> Some v
      | _ \<Rightarrow> None)"

definition JSON_parse :: "jsstring \<Rightarrow> json option" where
  "JSON_parse text = (case lex text of None \<Rightarrow> None | Some ts \<Rightarrow> parse_tokens ts)"


text \<open>
  \<open>JSON.stringify\<close> at the type \<open>SiteData\<close>. \<open>quote\<close> is \<open>QuoteJSONString\<close>: the short
  escapes, \<open>\u\<close> escapes for the other control characters and for lone surrogates, and
  every other code unit as it is. An id is an integer and prints as its decimal digits. The
  members are written in the order of the object literals of the source, which the spreads
  of the handlers keep. (An object read from a snapshot that lists its members in another
  order would print them in that order; \<open>site_of\<close> below reads the same value from
  either text.)
\<close>

definition hexdigit :: "nat \<Rightarrow> jschar" where
  "hexdigit n = (if n < 10 then 0x30 + of_nat n else 0x61 + of_nat (n - 10))"

definition unicode_escape :: "jschar \<Rightarrow> jsstring" where
  "unicode_escape c =
     [0x5C, 0x75, hexdigit (unat c div 4096), hexdigit (unat c div 256 mod 16),
      hexdigit (unat c div 16 mod 16), hexdigit (unat c mod 16)]"

definition isHighSurrogate :: "jschar \<Rightarrow> bool" where
  "isHighSurrogate c \<longleftrightarrow> 0xD800 \<le> c \<and> c \<le> 0xDBFF"

definition isLowSurrogate :: "jschar \<Rightarrow> bool" where
  "isLowSurrogate c \<longleftrightarrow> 0xDC00 \<le> c \<and> c \<le> 0xDFFF"

fun quote_chars :: "jsstring \<Rightarrow> jsstring" where
  "quote_chars [] = []"
| "quote_chars (c # cs) =
     (if c = 0x08 then [0x5C, 0x62] @ quote_chars cs
      else if c = 0x09 then [0x5C, 0x74] @ quote_chars cs
      else if c = 0x0A then [0x5C, 0x6E] @ quote_chars cs
      else if c = 0x0C then [0x5C, 0x66] @ quote_chars cs
      else if c = 0x0D then [0x5C, 0x72] @ quote_chars cs
      else if c = 0x22 then [0x5C, 0x22] @ quote_chars cs
      else if c = 0x5C then [0x5C, 0x5C] @ quote_chars cs
      else if c < 0x20 then unicode_escape c @ quote_chars cs
      else if isHighSurrogate c then
        (case cs of
           [] \<Rightarrow> unicode_escape c
         | d # ds \<Rightarrow> if isLowSurrogate d then c # d # quote_chars ds
                     else unicode_escape c @ quote_chars cs)
      else if isLowSurrogate c then unicode_escape c @ quote_chars cs
      else c # quote_chars cs)"

definition quote :: "jsstring \<Rightarrow> jsstring" where
  "quote s = 0x22 # quote_chars s @ [0x22]"

fun digits :: "nat \<Rightarrow> jsstring" where
  "digits n = (if n < 10 then [0x30 + of_nat n] else digits (n div 10) @ [0x30 + of_nat (n mod 10)])"

definition show_int :: "int \<Rightarrow> jsstring" where
  "show_int n = (if n < 0 then 0x2D # digits (nat (- n)) else digits (nat n))"

definition member :: "string \<Rightarrow> jsstring \<Rightarrow> jsstring" where
  "member k v = quote (js k) @ 0x3A # v"

fun commas :: "jsstring list \<Rightarrow> jsstring" where
  "commas [] = []"
| "commas (x # xs) = x @ concat (map ((#) 0x2C) xs)"

definition stringify_career :: "CareerItem \<Rightarrow> jsstring" where
  "stringify_career c =
     0x7B # member ''date'' (quote (date c)) @ 0x2C # member ''title'' (quote (title c)) @
     0x2C # member ''role'' (quote (role c)) @ [0x7D]"

definition stringify_work :: "WorkItem \<Rightarrow> jsstring" where
  "stringify_work w =
     0x7B # member ''id'' (show_int (id_work w)) @ 0x2C # member ''title'' (quote (title_work w)) @
     0x2C # member ''img'' (quote (img w)) @ 0x2C # member ''url'' (quote (url w)) @ [0x7D]"

definition JSON_stringify :: "js_heap \<Rightarrow> SiteData \<Rightarrow> jsstring" where
  "JSON_stringify h d =
     0x7B # member ''profileImg'' (quote (profileImg d)) @
     0x2C # member ''bio'' (quote (bio d)) @
     0x2C # member ''career'' (0x5B # commas (map (\<lambda>r. stringify_career (careerObjs h r)) (career d)) @ [0x5D]) @
     0x2C # member ''works'' (0x5B # commas (map (\<lambda>r. stringify_work (workObjs h r)) (works d)) @ [0x5D]) @
     [0x7D]"

text \<open>
  A parsed value as a \<open>SiteData\<close>: the four fields with values of the right types, items with
  exactly their own fields, ids that are integers in canonical decimal form within the safe
  range of a number. \<open>None\<close> means that the value does not have this shape; the source does
  not check it (see \<open>useEffect_load\<close>).
\<close>

fun as_string :: "json option \<Rightarrow> jsstring option" where
  "as_string (Some (JStr s)) = Some s"
| "as_string _ = None"

fun as_array :: "json option \<Rightarrow> json list option" where
  "as_array (Some (JArr vs)) = Some vs"
| "as_array _ = None"

definition read_nat :: "jsstring \<Rightarrow> nat" where
  "read_nat l = foldl (\<lambda>a d. 10 * a + unat (d - 0x30)) 0 l"

definition read_int :: "jsstring \<Rightarrow> int" where
  "read_int l = (case l of [] \<Rightarrow> 0 | c # cs \<Rightarrow> if c = 0x2D then - int (read_nat cs) else int (read_nat l))"

fun as_safe_integer :: "json option \<Rightarrow> int option" where
  "as_safe_integer (Some (JNum l)) =
     (if show_int (read_int l) = l \<and> \<bar>read_int l\<bar> \<le> 9007199254740991 then Some (read_int l) else None)"
| "as_safe_integer _ = None"

fun career_of :: "json \<Rightarrow> CareerItem option" where
  "career_of (JObj ms) =
     (case (as_string (map_of ms (js ''date'')), as_string (map_of ms (js ''title'')),
            as_string (map_of ms (js ''role''))) of
        (Some d, Some t, Some r) \<Rightarrow>
          if length ms = 3 then Some \<lparr>date = d, title = t, role = r\<rparr> else None
      | _ \<Rightarrow> None)"
| "career_of _ = None"

fun work_of :: "json \<Rightarrow> WorkItem option" where
  "work_of (JObj ms) =
     (case (as_safe_integer (map_of ms (js ''id'')), as_string (map_of ms (js ''title'')),
            as_string (map_of ms (js ''img'')), as_string (map_of ms (js ''url''))) of
        (Some i, Some t, Some g, Some u) \<Rightarrow>
          if length ms = 4 then Some \<lparr>id_work = i, title_work = t, img = g, url = u\<rparr> else None
      | _ \<Rightarrow> None)"
| "work_of _ = None"

fun site_of :: "json \<Rightarrow> (jsstring \<times> jsstring \<times> CareerItem list \<times> WorkItem list) option" where
  "site_of (JObj ms) =
     (case (as_string (map_of ms (js ''profileImg'')), as_string (map_of ms (js ''bio'')),
            as_array (map_of ms (js ''career'')), as_array (map_of ms (js ''works''))) of
        (Some p, Some b, Some cs, Some ws) \<Rightarrow>
          (case (those (map career_of cs), those (map work_of ws)) of
             (Some cs', Some ws') \<Rightarrow> if length ms = 4 then Some (p, b, cs', ws') else None
           | _ \<Rightarrow> None)
      | _ \<Rightarrow> None)"
| "site_of _ = None"

declare digits.simps [simp del]


section \<open>Persistence\<close>

text \<open>
  \<open>saveToLocal\<close>: \<open>setData(newData)\<close> comes first, then the write. When \<open>setItem\<close> raises,
  the exception leaves the handler: the lines after it do not run, and the state update
  that was already queued is applied.
\<close>

definition saveToLocal :: "SiteData \<Rightarrow> app \<Rightarrow> app \<times> effect list" where
  "saveToLocal newData s =
     (case setItem storage_key (JSON_stringify (heap s) newData) (localStorage s) of
        Inl e \<Rightarrow> (s\<lparr>data := newData\<rparr>, [Uncaught e])
      | Inr st \<Rightarrow>
          (s\<lparr>data := newData, localStorage := st, isAdminOpen := False, isAuth := False,
             passInput := []\<rparr>,
           [Alert [0xC800, 0xC7A5, 0xB418, 0xC5C8, 0xC2B5, 0xB2C8, 0xB2E4, 0x002E]]))"

text \<open>\<open>JSON.parse\<close> creates new objects: the items of a parsed \<open>SiteData\<close> are allocated.\<close>

fun alloc_careers :: "CareerItem list \<Rightarrow> js_heap \<Rightarrow> nat list \<times> js_heap" where
  "alloc_careers [] h = ([], h)"
| "alloc_careers (c # cs) h =
     (let r = nextCareer h;
          res = alloc_careers cs (h\<lparr>careerObjs := (careerObjs h)(r := c), nextCareer := Suc r\<rparr>)
      in (r # fst res, snd res))"

fun alloc_works :: "WorkItem list \<Rightarrow> js_heap \<Rightarrow> nat list \<times> js_heap" where
  "alloc_works [] h = ([], h)"
| "alloc_works (w # ws) h =
     (let r = nextWork h;
          res = alloc_works ws (h\<lparr>workObjs := (workObjs h)(r := w), nextWork := Suc r\<rparr>)
      in (r # fst res, snd res))"

definition install ::
  "jsstring \<times> jsstring \<times> CareerItem list \<times> WorkItem list \<Rightarrow> js_heap \<Rightarrow> SiteData \<times> js_heap" where
  "install v h =
     (case v of (p, b, cs, ws) \<Rightarrow>
        (let rc = alloc_careers cs h; rw = alloc_works ws (snd rc)
         in (\<lparr>profileImg = p, bio = b, career = fst rc, works = fst rw\<rparr>, snd rw)))"

text \<open>
  The effect that runs once after mount. \<open>if (saved)\<close> skips an absent snapshot and an empty
  one; a \<open>SyntaxError\<close> of \<open>JSON.parse\<close> is caught and logged; any parsed value is stored in
  \<open>data\<close> and \<open>editingData\<close> (the same object in both). The result is \<open>Inl v\<close> when the
  parsed value \<open>v\<close> does not have the shape of a \<open>SiteData\<close>: the two cells then hold \<open>v\<close>,
  which the typed state of this model cannot represent.
\<close>

definition useEffect_load :: "app \<Rightarrow> (json + app) \<times> effect list" where
  "useEffect_load s =
     (case getItem storage_key (localStorage s) of
        None \<Rightarrow> (Inr s, [])
      | Some saved \<Rightarrow>
          if saved = [] then (Inr s, [])
          else (case JSON_parse saved of
                  None \<Rightarrow> (Inr s, [ConsoleError (js ''Failed to parse saved data'')])
                | Some parsed \<Rightarrow>
                    (case site_of parsed of
                       None \<Rightarrow> (Inl parsed, [])
                     | Some v \<Rightarrow>
                         (let res = install v (heap s)
                          in (Inr (s\<lparr>data := fst res, editingData := fst res, heap := snd res\<rparr>),
                              [])))))"

text \<open>
  The render that follows a change of \<open>data\<close>. The body of the component reads \<open>data.bio\<close>
  and \<open>data.profileImg\<close>, calls \<open>data.career.map\<close> and \<open>data.works.map\<close>, and calls
  \<open>getThumbnail\<close> on every work; the admin panel is not part of it while \<open>isAdminOpen\<close> is
  false. The source has no error boundary: an exception raised in a render is not caught and
  the page is unmounted. On a \<open>SiteData\<close> the only call that can raise is \<open>getThumbnail\<close>.
\<close>

fun render_works :: "WorkItem list \<Rightarrow> effect list" where
  "render_works [] = []"
| "render_works (w # ws) =
     (case getThumbnail w of Inl e \<Rightarrow> [Uncaught e] | Inr _ \<Rightarrow> render_works ws)"

definition render :: "js_heap \<Rightarrow> SiteData \<Rightarrow> effect list" where
  "render h d = render_works (map (workObjs h) (works d))"

text \<open>
  The same render on a parsed value that is not a \<open>SiteData\<close>, where every read of the
  source meets a value of any type. Reading a property of \<open>null\<close> raises a \<open>TypeError\<close>;
  reading a property that a value does not have gives \<open>undefined\<close> (\<open>None\<close> below). The
  fields read are \<open>bio\<close>, \<open>profileImg\<close>, \<open>career\<close>, \<open>works\<close>, \<open>date\<close>, \<open>title\<close>, \<open>role\<close>,
  \<open>id\<close>, \<open>img\<close> and \<open>url\<close>: none of them is a property of a string, of a number, of a
  boolean or of an array, nor of the prototype of an object, so that only an object with
  the field as a key has it.
\<close>

fun get_prop :: "string \<Rightarrow> json \<Rightarrow> json option" where
  "get_prop p (JObj ms) = map_of ms (js p)"
| "get_prop p _ = None"

text \<open>
  The number that a literal denotes is zero when its digits are all zero, and when it is so
  small that the nearest double is zero: at most \<^verbatim>\<open>2^-1075\<close>, half of the least positive
  double. With \<open>m\<close> the digits before the exponent read as one integer, \<open>f\<close> the number of
  digits of the fraction and \<open>e\<close> the exponent, the literal denotes \<^verbatim>\<open>m * 10^(e - f)\<close>.
\<close>

definition number_is_zero :: "jsstring \<Rightarrow> bool" where
  "number_is_zero l =
     (let significand = takeWhile (\<lambda>c. c \<noteq> 0x65 \<and> c \<noteq> 0x45) l;
          m = read_nat (filter isDigit significand);
          f = length (filter isDigit (dropWhile (\<lambda>c. c \<noteq> 0x2E) significand));
          e = (case dropWhile (\<lambda>c. c \<noteq> 0x65 \<and> c \<noteq> 0x45) l of
                 [] \<Rightarrow> 0
               | _ # x \<Rightarrow>
                   (case x of
                      [] \<Rightarrow> 0
                    | g # ds \<Rightarrow> if g = 0x2D then - int (read_nat ds)
                                else if g = 0x2B then int (read_nat ds)
                                else int (read_nat x)))
      in m = 0 \<or> (e < int f \<and> m * 2 ^ 1075 \<le> 10 ^ nat (int f - e)))"

text \<open>\<open>if (work.img)\<close>: the values that count as true.\<close>

fun truthy :: "json option \<Rightarrow> bool" where
  "truthy None = False"
| "truthy (Some JNull) = False"
| "truthy (Some (JBool b)) = b"
| "truthy (Some (JNum l)) = (if number_is_zero l then False else True)"
| "truthy (Some (JStr s)) = (if s = [] then False else True)"
| "truthy (Some (JArr vs)) = True"
| "truthy (Some (JObj ms)) = True"

text \<open>
  \<open>url.match(regExp)\<close> is a call of a method that only a string has: on any other value it
  raises a \<open>TypeError\<close> (no value that \<open>JSON.parse\<close> returns is a function).
\<close>

fun is_string :: "json option \<Rightarrow> bool" where
  "is_string (Some (JStr s)) = True"
| "is_string _ = False"

text \<open>
  One work of \<open>data.works.map\<close>: \<open>work.id\<close> is read first, then \<open>getThumbnail(work)\<close> reads
  \<open>work.img\<close> and, when it is not truthy, calls \<open>getYoutubeId(work.url)\<close>.
\<close>

definition work_throws :: "json \<Rightarrow> bool" where
  "work_throws w =
     (if w = JNull then True
      else if truthy (get_prop ''img'' w) then False
      else if is_string (get_prop ''url'' w) then False
      else True)"

text \<open>
  What React accepts as a child of an element: strings and numbers are text, booleans,
  \<open>null\<close> and \<open>undefined\<close> are nothing, an array is the sequence of its elements, and an
  object raises.
\<close>

fun valid_child :: "json \<Rightarrow> bool" where
  "valid_child (JObj ms) = False"
| "valid_child (JArr vs) = list_all valid_child vs"
| "valid_child v = True"

fun child_ok :: "json option \<Rightarrow> bool" where
  "child_ok None = True"
| "child_ok (Some v) = valid_child v"

text \<open>
  The body of the component runs first, with its \<open>TypeError\<close>s: \<open>data.bio\<close> on \<open>null\<close>,
  \<open>.map\<close> on a value that is not an array, \<open>job.date\<close> on \<open>null\<close>, and the works as above.
  React then builds the elements; the children are \<open>data.bio\<close>, the three fields of every
  job, and \<open>work.id\<close> and \<open>work.title\<close> of every work. Attributes (\<open>src\<close>, \<open>alt\<close>, \<open>key\<close>)
  take any value.
\<close>

definition render_parsed :: "json \<Rightarrow> effect list" where
  "render_parsed v =
     (if v = JNull then [Uncaught TypeError]
      else case (get_prop ''career'' v, get_prop ''works'' v) of
             (Some (JArr jobs), Some (JArr ws)) \<Rightarrow>
               if list_ex (\<lambda>job. job = JNull) jobs then [Uncaught TypeError]
               else if list_ex work_throws ws then [Uncaught TypeError]
               else if child_ok (get_prop ''bio'' v) \<and>
                       list_all (\<lambda>job. child_ok (get_prop ''date'' job) \<and>
                                        child_ok (get_prop ''title'' job) \<and>
                                        child_ok (get_prop ''role'' job)) jobs \<and>
                       list_all (\<lambda>w. child_ok (get_prop ''id'' w) \<and>
                                      child_ok (get_prop ''title'' w)) ws
                    then []
                    else [Uncaught InvalidChild]
           | _ \<Rightarrow> [Uncaught TypeError])"

text \<open>
  Loading the page: the initial state, the effect, and the render of what the effect stored.
\<close>

definition mount :: "storage \<Rightarrow> (json + app) \<times> effect list" where
  "mount st =
     (case useEffect_load (initial_app st) of
        (Inr s', effs) \<Rightarrow> (Inr s', effs @ render (heap s') (data s'))
      | (Inl v, effs) \<Rightarrow> (Inl v, effs @ render_parsed v))"

section \<open>Events\<close>

text \<open>
  The user interface as a state machine: one event per control of the source. \<open>Commit\<close> is
  the button COMMIT ARCHIVE, \<^verbatim>\<open>saveToLocal(editingData)\<close>; \<open>LoadEnd\<close> is the completion of an
  upload started earlier.
\<close>

datatype event =
    AdminTrigger | KeyInput jsstring | PasswordSubmit | CloseAdmin | ResetToDefault bool
  | ProfileImageInput jsstring | BioInput jsstring
  | CareerInput nat career_field jsstring | WorkInput nat work_field jsstring
  | CreateEntry int | Purge nat | Commit | LoadEnd upload jsstring

fun fire :: "event \<Rightarrow> app \<Rightarrow> app \<times> effect list" where
  "fire AdminTrigger s = handleAdminTrigger s"
| "fire (KeyInput v) s = setPassInput v s"
| "fire PasswordSubmit s = handlePasswordSubmit s"
| "fire CloseAdmin s = closeAdmin s"
| "fire (ResetToDefault confirmed) s = resetToDefault confirmed s"
| "fire (ProfileImageInput v) s = setProfileImage v s"
| "fire (BioInput v) s = setBio v s"
| "fire (CareerInput idx f v) s = updateCareerItem idx f v s"
| "fire (WorkInput idx f v) s = updateWorkField idx f v s"
| "fire (CreateEntry now) s = addWork now s"
| "fire (Purge idx) s = removeWork idx s"
| "fire Commit s = saveToLocal (editingData s) s"
| "fire (LoadEnd up base64) s = onloadend up base64 s"

fun run :: "event list \<Rightarrow> app \<Rightarrow> app" where
  "run [] s = s"
| "run (e # es) s = run es (fst (fire e s))"

text \<open>
  What a reader of a \<open>SiteData\<close> sees through the store: the content of its fields, with
  every item address replaced by the object it holds.
\<close>

definition view :: "js_heap \<Rightarrow> SiteData \<Rightarrow> jsstring \<times> jsstring \<times> CareerItem list \<times> WorkItem list" where
  "view h d = (profileImg d, bio d, map (careerObjs h) (career d), map (workObjs h) (works d))"

text \<open>The state of the gate of the specification, read off the two flags.\<close>

datatype gate = Closed | Locked | Unlocked

definition gate_of :: "app \<Rightarrow> gate" where
  "gate_of s = (if \<not> isAdminOpen s then Closed else if isAuth s then Unlocked else Locked)"

text \<open>
  Every item address of a \<open>SiteData\<close> is allocated. It holds for \<open>DEFAULT_DATA\<close> in the
  store of the module and is kept by every handler.
\<close>

definition allocated :: "js_heap \<Rightarrow> SiteData \<Rightarrow> bool" where
  "allocated h d \<longleftrightarrow>
     list_all (\<lambda>r. r < nextCareer h) (career d) \<and> list_all (\<lambda>r. r < nextWork h) (works d)"

text \<open>The ids of the works of a \<open>SiteData\<close>, in order.\<close>

definition work_ids :: "js_heap \<Rightarrow> SiteData \<Rightarrow> int list" where
  "work_ids h d = map (\<lambda>r. id_work (workObjs h r)) (works d)"

text \<open>
  States used as concrete inputs: a browser without a snapshot that accepts every write, and
  the component after the gear was clicked and the right key was typed and submitted.
\<close>

definition fresh_storage :: storage where
  "fresh_storage = \<lparr>items = Map.empty, accepts = (\<lambda>_ _. True)\<rparr>"

definition unlocked_app :: app where
  "unlocked_app =
     fst (handlePasswordSubmit (fst (setPassInput (js ''0818'')
       (fst (handleAdminTrigger (initial_app fresh_storage))))))"

section \<open>Properties of the matcher\<close>

text \<open>The strings that group 1 of the expression can match.\<close>

definition known_url_shape :: "jsstring \<Rightarrow> bool" where
  "known_url_shape m \<longleftrightarrow>
     (\<exists>c. \<not> isLineTerminator c \<and> m = js ''youtu'' @ c # js ''be/'')
   \<or> m = js ''v/''
   \<or> (\<exists>c. isWordChar c \<and> m = js ''u/'' @ c # js ''/'')
   \<or> m = js ''embed/''
   \<or> m = js ''watch?v=''
   \<or> m = js ''&v=''"

text \<open>
  \<open>extracts u i\<close>: the string \<open>i\<close> is what group 2 captures in \<open>u\<close>. The input is a prefix
  without line terminators, then one of the known shapes, then \<open>i\<close>, which holds none of
  \<open>#\<close>, \<open>&\<close>, \<open>?\<close> and runs to the end of the input or to the first of these characters;
  and no known shape starts further to the right in the first line (the leading \<open>.*\<close> is
  greedy, so the last occurrence is the one that counts). Lemma \<open>getYoutubeId_iff\<close> below
  proves that the matcher returns \<open>i\<close> exactly when \<open>extracts u i\<close> holds and \<open>i\<close> has 11 code
  units.
\<close>

definition extracts :: "jsstring \<Rightarrow> jsstring \<Rightarrow> bool" where
  "extracts u i \<longleftrightarrow>
     (\<exists>pre mk post.
        u = pre @ mk @ i @ post \<and> (\<forall>c\<in>set pre. \<not> isLineTerminator c) \<and> known_url_shape mk \<and>
        (\<forall>c\<in>set i. c \<notin> set (js ''#&?'')) \<and> (post = [] \<or> hd post \<in> set (js ''#&?'')) \<and>
        (\<forall>pre' mk' rest'.
           u = pre' @ mk' @ rest' \<and> (\<forall>c\<in>set pre'. \<not> isLineTerminator c) \<and> known_url_shape mk'
           \<longrightarrow> length pre' \<le> length pre))"

lemma length_js [simp]: "length (js str) = length str"
  by (simp add: js_def)

lemma star_loop_sound:
  "star_loop c n s k = Some r \<Longrightarrow>
   \<exists>j\<le>length s. (\<forall>x\<in>set (take j s). cls_match c x) \<and> k (n + j) (drop j s) = Some r"
proof (induction s arbitrary: n)
  case Nil
  then show ?case by simp
next
  case (Cons x xs)
  show ?case
  proof (cases "cls_match c x \<and> star_loop c (Suc n) xs k = Some r")
    case True
    then obtain j where j: "j \<le> length xs" "\<forall>y\<in>set (take j xs). cls_match c y"
      "k (Suc n + j) (drop j xs) = Some r"
      using Cons.IH by blast
    with True show ?thesis
      by (intro exI [of _ "Suc j"]) simp
  next
    case False
    with Cons.prems have "k n (x # xs) = Some r"
      by (auto split: if_splits option.splits)
    then show ?thesis
      by (intro exI [of _ 0]) simp
  qed
qed

lemma star_loop_greedy:
  "(\<And>n' s'. k n' s' \<noteq> None) \<Longrightarrow>
   star_loop c n s k = k (n + length (takeWhile (cls_match c) s)) (dropWhile (cls_match c) s)"
proof (induction s arbitrary: n)
  case Nil
  then show ?case by simp
next
  case (Cons x xs)
  obtain y where
    "k (Suc n + length (takeWhile (cls_match c) xs)) (dropWhile (cls_match c) xs) = Some y"
    using Cons.prems by (meson option.exhaust)
  then show ?case
    using Cons.IH [OF Cons.prems, of "Suc n"] by simp
qed

lemma rmatch_lit:
  "rmatch (lit str) n s cs k =
     (if take (length str) s = js str then k (n + length str) (drop (length str) s) cs else None)"
proof (induction str arbitrary: n s)
  case Nil
  then show ?case by (simp add: lit_def js_def)
next
  case (Cons a str)
  have unf: "lit (a # str) = Seq (Ch (Lit (of_nat (of_char a)))) (lit str)"
    by (simp add: lit_def)
  show ?case
  proof (cases s)
    case Nil
    then show ?thesis by (simp add: unf js_def)
  next
    case (Cons x xs)
    then show ?thesis
      using Cons.IH [of "Suc n" xs] by (auto simp: unf js_def)
  qed
qed

lemma rmatch_lit_Some:
  "rmatch (lit str) n s cs k = Some r \<longleftrightarrow>
   (\<exists>s'. s = js str @ s' \<and> k (n + length str) s' cs = Some r)"
proof -
  have "take (length str) s = js str \<longleftrightarrow> (\<exists>s'. s = js str @ s')"
    by (metis append_eq_conv_conj length_js)
  then show ?thesis
    by (auto simp: rmatch_lit)
qed

lemma rmatch_Ch_Some:
  "rmatch (Ch c) n s cs k = Some r \<longleftrightarrow>
   (\<exists>x s'. s = x # s' \<and> cls_match c x \<and> k (Suc n) s' cs = Some r)"
  by (cases s) auto

lemma rmatch_Alt_Some:
  "rmatch (Alt a b) n s cs k = Some r \<Longrightarrow>
   rmatch a n s cs k = Some r \<or> rmatch b n s cs k = Some r"
  by (auto split: option.splits)

lemma url_shapes_sound:
  assumes "rmatch url_shapes n s cs k = Some r"
  shows "\<exists>m s'. s = m @ s' \<and> known_url_shape m \<and> k (n + length m) s' cs = Some r"
proof -
  from assms consider
      (a) "rmatch (Seq (lit ''youtu'') (Seq (Ch Dot) (lit ''be/''))) n s cs k = Some r"
    | (b) "rmatch (lit ''v/'') n s cs k = Some r"
    | (c) "rmatch (Seq (lit ''u/'') (Seq (Ch WordCh) (lit ''/''))) n s cs k = Some r"
    | (d) "rmatch (lit ''embed/'') n s cs k = Some r"
    | (e) "rmatch (lit ''watch?v='') n s cs k = Some r"
    | (f) "rmatch (lit ''&v='') n s cs k = Some r"
    unfolding url_shapes_def by (blast dest: rmatch_Alt_Some)
  then show ?thesis
  proof cases
    case a
    then obtain s1 where s1: "s = js ''youtu'' @ s1"
      "rmatch (Seq (Ch Dot) (lit ''be/'')) (n + length ''youtu'') s1 cs k = Some r"
      unfolding rmatch.simps(5) [of "lit ''youtu''"] rmatch_lit_Some by blast
    from s1(2) have "rmatch (Ch Dot) (n + length ''youtu'') s1 cs
        (\<lambda>n' s' cs'. rmatch (lit ''be/'') n' s' cs' k) = Some r"
      unfolding rmatch.simps(5) .
    then obtain c s2 where s2: "s1 = c # s2" "cls_match Dot c"
      "rmatch (lit ''be/'') (Suc (n + length ''youtu'')) s2 cs k = Some r"
      unfolding rmatch_Ch_Some by blast
    from s2(3) obtain s' where s': "s2 = js ''be/'' @ s'"
      "k (Suc (n + length ''youtu'') + length ''be/'') s' cs = Some r"
      unfolding rmatch_lit_Some by blast
    let ?m = "js ''youtu'' @ c # js ''be/''"
    have "s = ?m @ s'" using s1(1) s2(1) s'(1) by simp
    moreover have "known_url_shape ?m"
      unfolding known_url_shape_def using s2(2) by auto
    moreover have "k (n + length ?m) s' cs = Some r"
      using s'(2) by (simp add: add.commute add.left_commute)
    ultimately show ?thesis by blast
  next
    case b
    then show ?thesis
      unfolding known_url_shape_def rmatch_lit_Some
      by (metis length_js)
  next
    case c
    then obtain s1 where s1: "s = js ''u/'' @ s1"
      "rmatch (Seq (Ch WordCh) (lit ''/'')) (n + length ''u/'') s1 cs k = Some r"
      unfolding rmatch.simps(5) [of "lit ''u/''"] rmatch_lit_Some by blast
    from s1(2) have "rmatch (Ch WordCh) (n + length ''u/'') s1 cs
        (\<lambda>n' s' cs'. rmatch (lit ''/'') n' s' cs' k) = Some r"
      unfolding rmatch.simps(5) .
    then obtain c s2 where s2: "s1 = c # s2" "cls_match WordCh c"
      "rmatch (lit ''/'') (Suc (n + length ''u/'')) s2 cs k = Some r"
      unfolding rmatch_Ch_Some by blast
    from s2(3) obtain s' where s': "s2 = js ''/'' @ s'"
      "k (Suc (n + length ''u/'') + length ''/'') s' cs = Some r"
      unfolding rmatch_lit_Some by blast
    let ?m = "js ''u/'' @ c # js ''/''"
    have "s = ?m @ s'" using s1(1) s2(1) s'(1) by simp
    moreover have "known_url_shape ?m"
      unfolding known_url_shape_def using s2(2) by auto
    moreover have "k (n + length ?m) s' cs = Some r"
      using s'(2) by (simp add: add.commute add.left_commute)
    ultimately show ?thesis by blast
  next
    case d
    then show ?thesis
      unfolding known_url_shape_def rmatch_lit_Some
      by (metis length_js)
  next
    case e
    then show ?thesis
      unfolding known_url_shape_def rmatch_lit_Some
      by (metis length_js)
  next
    case f
    then show ?thesis
      unfolding known_url_shape_def rmatch_lit_Some
      by (metis length_js)
  qed
qed

lemma exec_from_Bol: "0 < n \<Longrightarrow> exec_from (Seq Bol r) n s = None"
  by (induction s arbitrary: n) auto

lemma exec_from_anchored:
  "exec_from (Seq Bol r) 0 s = rmatch r 0 s Map.empty (\<lambda>_ _ cs. Some cs)"
  by (cases s) (auto simp: exec_from_Bol split: option.splits)

lemma star_loop_const: "star_loop d n s (\<lambda>_ _. Some v) = Some v"
  by (induction s arbitrary: n) auto

lemma tail_eval:
  "rmatch (Seq (Grp 2 (Star c)) (Star d)) n s cs (\<lambda>_ _ cs. Some cs) =
   Some (cs(2 \<mapsto> takeWhile (cls_match c) s))"
proof -
  have "rmatch (Seq (Grp 2 (Star c)) (Star d)) n s cs (\<lambda>_ _ cs. Some cs) =
        star_loop c n s (\<lambda>n' s'. Some (cs(2 \<mapsto> take (n' - n) s)))"
    by (simp add: star_loop_const)
  also have "\<dots> = Some (cs(2 \<mapsto> take (n + length (takeWhile (cls_match c) s) - n) s))"
    by (rule star_loop_greedy) simp
  finally show ?thesis
    by (simp add: takeWhile_eq_take [symmetric])
qed

lemma star_loop_None:
  "star_loop c n s k = None \<Longrightarrow> j \<le> length s \<Longrightarrow> \<forall>x\<in>set (take j s). cls_match c x \<Longrightarrow>
   k (n + j) (drop j s) = None"
proof (induction s arbitrary: n j)
  case Nil
  then show ?case by simp
next
  case (Cons x xs)
  show ?case
  proof (cases j)
    case 0
    with Cons.prems(1) show ?thesis
      by (auto split: if_splits option.splits)
  next
    case (Suc j')
    with Cons.prems have "cls_match c x" "star_loop c (Suc n) xs k = None"
      by (auto split: if_splits option.splits)
    with Cons.IH [of "Suc n" j'] Cons.prems Suc show ?thesis
      by simp
  qed
qed

lemma star_loop_last:
  "star_loop c n s k = Some r \<Longrightarrow>
   \<exists>j\<le>length s. (\<forall>x\<in>set (take j s). cls_match c x) \<and> k (n + j) (drop j s) = Some r \<and>
     (\<forall>j'. j < j' \<and> j' \<le> length s \<and> (\<forall>x\<in>set (take j' s). cls_match c x) \<longrightarrow>
           k (n + j') (drop j' s) = None)"
proof (induction s arbitrary: n)
  case Nil
  then show ?case by simp
next
  case (Cons x xs)
  show ?case
  proof (cases "cls_match c x")
    case False
    with Cons.prems have "k n (x # xs) = Some r" by simp
    moreover have "\<not> (\<forall>y\<in>set (take j' (x # xs)). cls_match c y)" if "0 < j'" for j'
      using that False by (cases j') auto
    ultimately show ?thesis
      by (intro exI [of _ 0]) auto
  next
    case True
    show ?thesis
    proof (cases "star_loop c (Suc n) xs k")
      case None
      with True Cons.prems have k0: "k n (x # xs) = Some r" by simp
      have "k (n + j') (drop j' (x # xs)) = None"
        if "0 < j'" "j' \<le> length (x # xs)" "\<forall>y\<in>set (take j' (x # xs)). cls_match c y" for j'
      proof -
        from that obtain i where i: "j' = Suc i" by (cases j') auto
        with that have "i \<le> length xs" "\<forall>y\<in>set (take i xs). cls_match c y" by auto
        from star_loop_None [OF None this] show ?thesis using i by simp
      qed
      with k0 show ?thesis
        by (intro exI [of _ 0]) auto
    next
      case (Some r')
      with True Cons.prems have "star_loop c (Suc n) xs k = Some r" by simp
      from Cons.IH [OF this] obtain j where j: "j \<le> length xs"
        "\<forall>y\<in>set (take j xs). cls_match c y" "k (Suc n + j) (drop j xs) = Some r"
        "\<forall>j'. j < j' \<and> j' \<le> length xs \<and> (\<forall>y\<in>set (take j' xs). cls_match c y) \<longrightarrow>
              k (Suc n + j') (drop j' xs) = None"
        by blast
      have "k (n + j') (drop j' (x # xs)) = None"
        if "Suc j < j'" "j' \<le> length (x # xs)" "\<forall>y\<in>set (take j' (x # xs)). cls_match c y" for j'
      proof -
        from that obtain i where i: "j' = Suc i" by (cases j') auto
        with that have "j < i" "i \<le> length xs" "\<forall>y\<in>set (take i xs). cls_match c y" by auto
        with j(4) have "k (Suc n + i) (drop i xs) = None" by blast
        then show ?thesis using i by simp
      qed
      with j(1,2,3) True show ?thesis
        by (intro exI [of _ "Suc j"]) auto
    qed
  qed
qed

lemma rmatch_Alt_None:
  "rmatch (Alt a b) n s cs k = None \<longleftrightarrow>
   rmatch a n s cs k = None \<and> rmatch b n s cs k = None"
  by (auto split: option.splits)

lemma rmatch_lit_append:
  "rmatch (lit str) n (js str @ s') cs k = k (n + length str) s' cs"
  by (simp add: rmatch_lit)

lemma url_shapes_complete:
  assumes "known_url_shape mk" and "\<And>n' s' cs'. k n' s' cs' \<noteq> None"
  shows "rmatch url_shapes n (mk @ rest) cs k \<noteq> None"
proof -
  from assms(1) consider
      (a) c where "\<not> isLineTerminator c" "mk = js ''youtu'' @ c # js ''be/''"
    | (b) "mk = js ''v/''"
    | (c) c where "isWordChar c" "mk = js ''u/'' @ c # js ''/''"
    | (d) "mk = js ''embed/''"
    | (e) "mk = js ''watch?v=''"
    | (f) "mk = js ''&v=''"
    unfolding known_url_shape_def by blast
  then show ?thesis
  proof cases
    case a
    have "rmatch (Seq (lit ''youtu'') (Seq (Ch Dot) (lit ''be/''))) n (mk @ rest) cs k \<noteq> None"
      unfolding a(2) rmatch.simps(5) append_assoc rmatch_lit_append append_Cons
      using a(1) by (simp add: rmatch_lit_append assms(2))
    then show ?thesis
      unfolding url_shapes_def rmatch_Alt_None by blast
  next
    case b
    have "rmatch (lit ''v/'') n (mk @ rest) cs k \<noteq> None"
      unfolding b rmatch_lit_append by (rule assms(2))
    then show ?thesis
      unfolding url_shapes_def rmatch_Alt_None by blast
  next
    case c
    have "rmatch (Seq (lit ''u/'') (Seq (Ch WordCh) (lit ''/''))) n (mk @ rest) cs k \<noteq> None"
      unfolding c(2) rmatch.simps(5) append_assoc rmatch_lit_append append_Cons
      using c(1) by (simp add: rmatch_lit_append assms(2))
    then show ?thesis
      unfolding url_shapes_def rmatch_Alt_None by blast
  next
    case d
    have "rmatch (lit ''embed/'') n (mk @ rest) cs k \<noteq> None"
      unfolding d rmatch_lit_append by (rule assms(2))
    then show ?thesis
      unfolding url_shapes_def rmatch_Alt_None by blast
  next
    case e
    have "rmatch (lit ''watch?v='') n (mk @ rest) cs k \<noteq> None"
      unfolding e rmatch_lit_append by (rule assms(2))
    then show ?thesis
      unfolding url_shapes_def rmatch_Alt_None by blast
  next
    case f
    have "rmatch (lit ''&v='') n (mk @ rest) cs k \<noteq> None"
      unfolding f rmatch_lit_append by (rule assms(2))
    then show ?thesis
      unfolding url_shapes_def rmatch_Alt_None by blast
  qed
qed


lemma exec_regExp_Some:
  assumes "exec_from regExp 0 u = Some m"
  shows "\<exists>pre mk rest. u = pre @ mk @ rest \<and> (\<forall>c\<in>set pre. \<not> isLineTerminator c) \<and>
           known_url_shape mk \<and>
           m = [1 \<mapsto> mk, 2 \<mapsto> takeWhile (cls_match (NoneOf (js ''#&?''))) rest] \<and>
           (\<forall>pre' mk' rest'. u = pre' @ mk' @ rest' \<and> (\<forall>c\<in>set pre'. \<not> isLineTerminator c) \<and>
               known_url_shape mk' \<longrightarrow> length pre' \<le> length pre)"
proof -
  let ?N = "NoneOf (js ''#&?'')"
  let ?K = "\<lambda>(n::nat) (s::jsstring) (cs::caps). Some cs"
  let ?tail = "Seq (Grp 2 (Star ?N)) (Star Dot)"
  let ?k1 = "\<lambda>n' s'. rmatch (Seq (Grp 1 url_shapes) ?tail) n' s' Map.empty ?K"
  have k1: "?k1 n' s' = rmatch url_shapes n' s' Map.empty
      (\<lambda>n2 s2 cs2. Some (cs2(1 \<mapsto> take (n2 - n') s', 2 \<mapsto> takeWhile (cls_match ?N) s2)))" for n' s'
    unfolding rmatch.simps(5) [of "Grp 1 url_shapes"] rmatch.simps(7) tail_eval by simp
  from assms have "star_loop Dot 0 u ?k1 = Some m"
    unfolding regExp_def exec_from_anchored by simp
  from star_loop_last [OF this] obtain j where j: "j \<le> length u"
    "\<forall>x\<in>set (take j u). cls_match Dot x" "?k1 (0 + j) (drop j u) = Some m"
    "\<forall>j'. j < j' \<and> j' \<le> length u \<and> (\<forall>x\<in>set (take j' u). cls_match Dot x) \<longrightarrow>
          ?k1 (0 + j') (drop j' u) = None"
    by blast
  from j(3) obtain mk rest where mk: "drop j u = mk @ rest" "known_url_shape mk"
    "Some (Map.empty(1 \<mapsto> take (j + length mk - j) (drop j u),
       2 \<mapsto> takeWhile (cls_match ?N) rest)) = Some m"
    unfolding k1 by (auto dest: url_shapes_sound)
  have u: "u = take j u @ mk @ rest"
    using mk(1) by (metis append_take_drop_id)
  have nolt: "\<forall>c\<in>set (take j u). \<not> isLineTerminator c"
    using j(2) by simp
  have m: "m = [1 \<mapsto> mk, 2 \<mapsto> takeWhile (cls_match ?N) rest]"
    using mk(1,3) by simp
  have last: "length pre' \<le> length (take j u)"
    if "u = pre' @ mk' @ rest'" "\<forall>c\<in>set pre'. \<not> isLineTerminator c" "known_url_shape mk'"
    for pre' mk' rest'
  proof (rule ccontr)
    assume "\<not> length pre' \<le> length (take j u)"
    with j(1) have lt: "j < length pre'" by simp
    have "length pre' \<le> length u" "take (length pre') u = pre'" "drop (length pre') u = mk' @ rest'"
      using that(1) by simp_all
    with j(4) lt that(2) have "?k1 (0 + length pre') (mk' @ rest') = None"
      by (metis cls_match.simps(2))
    moreover have "?k1 (0 + length pre') (mk' @ rest') \<noteq> None"
      unfolding k1 by (rule url_shapes_complete [OF that(3)]) simp
    ultimately show False by contradiction
  qed
  from u nolt mk(2) m last show ?thesis by blast
qed


lemma known_url_shape_unique:
  assumes "known_url_shape a" "known_url_shape b" "a @ r = b @ r'"
  shows "a = b"
  using assms unfolding known_url_shape_def
  by (elim disjE exE conjE) (simp_all add: js_def)

lemma takeWhile_split:
  assumes "\<forall>c\<in>set i. P c" "post = [] \<or> \<not> P (hd post)"
  shows "takeWhile P (i @ post) = i"
proof (cases post)
  case Nil
  with assms show ?thesis by simp
next
  case (Cons x xs)
  with assms show ?thesis by (simp add: takeWhile_tail)
qed

lemma exec_regExp_group2:
  "exec_from regExp 0 u = Some m \<Longrightarrow> \<exists>g. m 2 = Some g \<and> extracts u g"
proof -
  assume "exec_from regExp 0 u = Some m"
  from exec_regExp_Some [OF this] obtain pre mk rest where d:
    "u = pre @ mk @ rest" "\<forall>c\<in>set pre. \<not> isLineTerminator c" "known_url_shape mk"
    "m = [1 \<mapsto> mk, 2 \<mapsto> takeWhile (cls_match (NoneOf (js ''#&?''))) rest]"
    "\<forall>pre' mk' rest'. u = pre' @ mk' @ rest' \<and> (\<forall>c\<in>set pre'. \<not> isLineTerminator c) \<and>
        known_url_shape mk' \<longrightarrow> length pre' \<le> length pre"
    by blast
  let ?P = "cls_match (NoneOf (js ''#&?''))"
  let ?g = "takeWhile ?P rest"
  let ?post = "dropWhile ?P rest"
  have "u = pre @ mk @ ?g @ ?post" using d(1) by simp
  moreover have "\<forall>c\<in>set ?g. c \<notin> set (js ''#&?'')"
    by (auto dest: set_takeWhileD)
  moreover have "?post = [] \<or> hd ?post \<in> set (js ''#&?'')"
    using hd_dropWhile [of ?P rest] by auto
  ultimately have "extracts u ?g"
    unfolding extracts_def using d(2,3,5) by blast
  with d(4) show ?thesis by simp
qed

lemma extracts_exec:
  assumes "extracts u i"
  shows "\<exists>m. exec_from regExp 0 u = Some m \<and> m 2 = Some i"
proof -
  from assms obtain pre mk post where e:
    "u = pre @ mk @ i @ post" "\<forall>c\<in>set pre. \<not> isLineTerminator c" "known_url_shape mk"
    "\<forall>c\<in>set i. c \<notin> set (js ''#&?'')" "post = [] \<or> hd post \<in> set (js ''#&?'')"
    "\<forall>pre' mk' rest'. u = pre' @ mk' @ rest' \<and> (\<forall>c\<in>set pre'. \<not> isLineTerminator c) \<and>
        known_url_shape mk' \<longrightarrow> length pre' \<le> length pre"
    unfolding extracts_def by blast
  let ?N = "NoneOf (js ''#&?'')"
  let ?K = "\<lambda>(n::nat) (s::jsstring) (cs::caps). Some cs"
  let ?tail = "Seq (Grp 2 (Star ?N)) (Star Dot)"
  let ?k1 = "\<lambda>n' s'. rmatch (Seq (Grp 1 url_shapes) ?tail) n' s' Map.empty ?K"
  have k1: "?k1 n' s' = rmatch url_shapes n' s' Map.empty
      (\<lambda>n2 s2 cs2. Some (cs2(1 \<mapsto> take (n2 - n') s', 2 \<mapsto> takeWhile (cls_match ?N) s2)))" for n' s'
    unfolding rmatch.simps(5) [of "Grp 1 url_shapes"] rmatch.simps(7) tail_eval by simp
  have ex: "exec_from regExp 0 u = star_loop Dot 0 u ?k1"
    unfolding regExp_def exec_from_anchored by simp
  have "exec_from regExp 0 u \<noteq> None"
  proof
    assume "exec_from regExp 0 u = None"
    then have "star_loop Dot 0 u ?k1 = None" using ex by simp
    from star_loop_None [OF this, of "length pre"] e(1,2)
    have "?k1 (0 + length pre) (mk @ i @ post) = None" by simp
    moreover have "?k1 (0 + length pre) (mk @ i @ post) \<noteq> None"
      unfolding k1 by (rule url_shapes_complete [OF e(3)]) simp
    ultimately show False by contradiction
  qed
  then obtain m where m: "exec_from regExp 0 u = Some m" by blast
  from exec_regExp_Some [OF this] obtain pre0 mk0 rest0 where d:
    "u = pre0 @ mk0 @ rest0" "\<forall>c\<in>set pre0. \<not> isLineTerminator c" "known_url_shape mk0"
    "m = [1 \<mapsto> mk0, 2 \<mapsto> takeWhile (cls_match ?N) rest0]"
    "\<forall>pre' mk' rest'. u = pre' @ mk' @ rest' \<and> (\<forall>c\<in>set pre'. \<not> isLineTerminator c) \<and>
        known_url_shape mk' \<longrightarrow> length pre' \<le> length pre0"
    by blast
  have "length pre \<le> length pre0" using d(5) e(1,2,3) by blast
  moreover have "length pre0 \<le> length pre" using e(6) d(1,2,3) by blast
  ultimately have len: "length pre = length pre0" by simp
  with e(1) d(1) have pre: "pre = pre0" and rest: "mk @ i @ post = mk0 @ rest0"
    by (metis append_eq_append_conv)+
  from known_url_shape_unique [OF e(3) d(3) rest] have mk: "mk = mk0" .
  with rest have "rest0 = i @ post" by simp
  moreover have "takeWhile (cls_match ?N) (i @ post) = i"
    by (rule takeWhile_split) (use e(4,5) in auto)
  ultimately have "m 2 = Some i" using d(4) by simp
  with m show ?thesis by blast
qed

lemma getYoutubeId_iff:
  "getYoutubeId u = Inr (Some i) \<longleftrightarrow> extracts u i \<and> length i = 11"
proof
  assume "getYoutubeId u = Inr (Some i)"
  then obtain m where "exec_from regExp 0 u = Some m" "m 2 = Some i" "length i = 11"
    unfolding getYoutubeId_def by (auto split: option.splits if_splits)
  with exec_regExp_group2 [of u m] show "extracts u i \<and> length i = 11" by auto
next
  assume "extracts u i \<and> length i = 11"
  with extracts_exec [of u i] show "getYoutubeId u = Inr (Some i)"
    unfolding getYoutubeId_def by auto
qed

lemma getYoutubeId_None_iff:
  "getYoutubeId u = Inr None \<longleftrightarrow> (\<forall>i. extracts u i \<longrightarrow> length i \<noteq> 11)"
proof -
  have total: "\<exists>r. getYoutubeId u = Inr r"
    unfolding getYoutubeId_def using exec_regExp_group2 [of u]
    by (auto split: option.splits)
  show ?thesis
  proof
    assume "getYoutubeId u = Inr None"
    then show "\<forall>i. extracts u i \<longrightarrow> length i \<noteq> 11"
      using getYoutubeId_iff [of u] by auto
  next
    assume a: "\<forall>i. extracts u i \<longrightarrow> length i \<noteq> 11"
    from total obtain r where r: "getYoutubeId u = Inr r" by blast
    show "getYoutubeId u = Inr None"
    proof (cases r)
      case None
      with r show ?thesis by simp
    next
      case (Some i)
      with r a getYoutubeId_iff [of u i] show ?thesis by blast
    qed
  qed
qed

section \<open>The thumbnail resolver\<close>

text \<open>
  C1, as amended. \<open>getThumbnail\<close> follows the fallback chain, first match wins: a non-empty
  \<open>img\<close> is returned verbatim; otherwise the identifier is read from \<open>url\<close> at the last place
  of its first line where one of the known URL shapes occurs (it is what follows that
  occurrence, up to the end of \<open>url\<close> or to the first \<open>#\<close>, \<open>&\<close> or \<open>?\<close>), and when it has
  exactly 11 code units the result is the thumbnail URL built from it; otherwise (no shape
  occurs in the first line, or the identifier read there has another length) the result is
  the placeholder. No case raises. The three examples of the specification are included.
\<close>

theorem getThumbnail_fallback_chain:
  "(img work \<noteq> [] \<longrightarrow> getThumbnail work = Inr (img work)) \<and>
   (img work = [] \<longrightarrow>
      (\<forall>i. extracts (url work) i \<and> length i = 11 \<longrightarrow>
         getThumbnail work =
           Inr (js ''https://img.youtube.com/vi/'' @ i @ js ''/maxresdefault.jpg''))) \<and>
   (img work = [] \<and> (\<forall>i. extracts (url work) i \<longrightarrow> length i \<noteq> 11) \<longrightarrow>
      getThumbnail work = Inr (js ''https://placehold.co/600x400/111/333?text=NO+IMAGE'')) \<and>
   getThumbnail \<lparr>id_work = n, title_work = t, img = [],
       url = js ''https://www.youtube.com/watch?v=aqz-KE-bpKQ''\<rparr> =
     Inr (js ''https://img.youtube.com/vi/aqz-KE-bpKQ/maxresdefault.jpg'') \<and>
   getThumbnail \<lparr>id_work = n, title_work = t, img = [], url = []\<rparr> =
     Inr (js ''https://placehold.co/600x400/111/333?text=NO+IMAGE'') \<and>
   getThumbnail \<lparr>id_work = n, title_work = t, img = js ''X'', url = anything\<rparr> = Inr (js ''X'')"
proof -
  have a: "img work \<noteq> [] \<longrightarrow> getThumbnail work = Inr (img work)"
    by (simp add: getThumbnail_def)
  have b: "img work = [] \<longrightarrow>
      (\<forall>i. extracts (url work) i \<and> length i = 11 \<longrightarrow>
         getThumbnail work =
           Inr (js ''https://img.youtube.com/vi/'' @ i @ js ''/maxresdefault.jpg''))"
  proof (intro impI allI)
    fix i
    assume empty: "img work = []" and ex: "extracts (url work) i \<and> length i = 11"
    from ex have "getYoutubeId (url work) = Inr (Some i)"
      by (simp only: getYoutubeId_iff)
    with empty show "getThumbnail work =
        Inr (js ''https://img.youtube.com/vi/'' @ i @ js ''/maxresdefault.jpg'')"
      by (simp add: getThumbnail_def)
  qed
  have c: "img work = [] \<and> (\<forall>i. extracts (url work) i \<longrightarrow> length i \<noteq> 11) \<longrightarrow>
      getThumbnail work = Inr (js ''https://placehold.co/600x400/111/333?text=NO+IMAGE'')"
  proof
    assume h: "img work = [] \<and> (\<forall>i. extracts (url work) i \<longrightarrow> length i \<noteq> 11)"
    then have "getYoutubeId (url work) = Inr None"
      using getYoutubeId_None_iff [of "url work"] by blast
    with h show "getThumbnail work =
        Inr (js ''https://placehold.co/600x400/111/333?text=NO+IMAGE'')"
      by (simp add: getThumbnail_def)
  qed
  have d: "getThumbnail \<lparr>id_work = n, title_work = t, img = [],
       url = js ''https://www.youtube.com/watch?v=aqz-KE-bpKQ''\<rparr> =
     Inr (js ''https://img.youtube.com/vi/aqz-KE-bpKQ/maxresdefault.jpg'')"
    by (simp add: getThumbnail_def getYoutubeId_def regExp_def url_shapes_def lit_def js_def
        isLineTerminator_def isWordChar_def)
  have e: "getThumbnail \<lparr>id_work = n, title_work = t, img = [], url = []\<rparr> =
     Inr (js ''https://placehold.co/600x400/111/333?text=NO+IMAGE'')"
    by (simp add: getThumbnail_def getYoutubeId_def regExp_def url_shapes_def lit_def)
  have f: "getThumbnail \<lparr>id_work = n, title_work = t, img = js ''X'', url = anything\<rparr> =
     Inr (js ''X'')"
    by (simp add: getThumbnail_def js_def)
  from a b c d e f show ?thesis by blast
qed

theorem getThumbnail_fallback_chain_witness:
  "length (js ''aqz-KE-bpKQ'') = 11 \<and>
   getThumbnail \<lparr>id_work = 1, title_work = js ''Visual Archive_1'', img = [],
       url = js ''https://www.youtube.com/watch?v=aqz-KE-bpKQ''\<rparr> =
     Inr (js ''https://img.youtube.com/vi/'' @ js ''aqz-KE-bpKQ'' @ js ''/maxresdefault.jpg'') \<and>
   getThumbnail \<lparr>id_work = 3, title_work = js ''Visual Archive_3'', img = [], url = []\<rparr> =
     Inr (js ''https://placehold.co/600x400/111/333?text=NO+IMAGE'') \<and>
   getThumbnail \<lparr>id_work = 7, title_work = [], img = js ''X'', url = js ''anything''\<rparr> =
     Inr (js ''X'')"
proof -
  let ?w1 = "\<lparr>id_work = 1, title_work = js ''Visual Archive_1'', img = [],
       url = js ''https://www.youtube.com/watch?v=aqz-KE-bpKQ''\<rparr>"
  let ?w3 = "\<lparr>id_work = 3, title_work = js ''Visual Archive_3'', img = [], url = []\<rparr>"
  let ?w7 = "\<lparr>id_work = 7, title_work = [], img = js ''X'', url = js ''anything''\<rparr>"
  have "getYoutubeId (js ''https://www.youtube.com/watch?v=aqz-KE-bpKQ'') =
      Inr (Some (js ''aqz-KE-bpKQ''))"
    by (simp add: getYoutubeId_def regExp_def url_shapes_def lit_def js_def
        isLineTerminator_def isWordChar_def)
  then have h1: "extracts (js ''https://www.youtube.com/watch?v=aqz-KE-bpKQ'') (js ''aqz-KE-bpKQ'')
      \<and> length (js ''aqz-KE-bpKQ'') = 11"
    by (simp only: getYoutubeId_iff)
  have "getYoutubeId [] = Inr None"
    by (simp add: getYoutubeId_def regExp_def url_shapes_def lit_def)
  then have h3: "\<forall>i. extracts [] i \<longrightarrow> length i \<noteq> 11"
    by (simp only: getYoutubeId_None_iff)
  have h7: "js ''X'' \<noteq> []"
    by (simp add: js_def)
  from h1 h3 h7 getThumbnail_fallback_chain [of ?w1] getThumbnail_fallback_chain [of ?w3]
    getThumbnail_fallback_chain [of ?w7]
  show ?thesis by simp
qed

text \<open>
  The claim as stated fails where a known shape occurs again after the identifier. In the
  first link below, \<open>dQw4w9WgXcQ\<close> follows \<open>embed/\<close> and ends at \<open>?\<close>; but \<open>v/\<close> occurs later, in
  \<open>a.tv/\<close>, nothing follows it, and the result is the placeholder. It also fails where the
  shape is not in the first line: the second link starts with a line separator.
\<close>

theorem getThumbnail_last_shape_counterexample:
  "js ''https://www.youtube.com/embed/dQw4w9WgXcQ?origin=https://a.tv/'' =
     js ''https://www.youtube.com/'' @ js ''embed/'' @ js ''dQw4w9WgXcQ'' @ js ''?origin=https://a.tv/'' \<and>
   length (js ''dQw4w9WgXcQ'') = 11 \<and>
   getThumbnail \<lparr>id_work = 2, title_work = js ''Visual Archive_2'', img = [],
       url = js ''https://www.youtube.com/embed/dQw4w9WgXcQ?origin=https://a.tv/''\<rparr> =
     Inr (js ''https://placehold.co/600x400/111/333?text=NO+IMAGE'') \<and>
   getThumbnail \<lparr>id_work = 2, title_work = js ''Visual Archive_2'', img = [],
       url = 0x2028 # js ''https://youtu.be/dQw4w9WgXcQ''\<rparr> =
     Inr (js ''https://placehold.co/600x400/111/333?text=NO+IMAGE'')"
  by (simp add: getThumbnail_def getYoutubeId_def regExp_def url_shapes_def lit_def js_def
      isLineTerminator_def isWordChar_def)

section \<open>The key check\<close>

text \<open>
  C8. With the gate locked (panel open, not authenticated), submitting the form unlocks the
  gate exactly when the typed key equals the fixed secret \<open>0818\<close>; for every other key (empty,
  partial or wrong) the gate stays locked, the input is cleared and a notice is shown.
\<close>

theorem handlePasswordSubmit_verify:
  "gate_of s = Locked \<Longrightarrow>
     (gate_of (fst (handlePasswordSubmit s)) = Unlocked \<longleftrightarrow> passInput s = js ''0818'') \<and>
     (passInput s \<noteq> js ''0818'' \<longrightarrow>
        gate_of (fst (handlePasswordSubmit s)) = Locked \<and>
        passInput (fst (handlePasswordSubmit s)) = [] \<and>
        (\<exists>notice. snd (handlePasswordSubmit s) = [Alert notice]))"
  by (auto simp: handlePasswordSubmit_def gate_of_def split: if_splits)

theorem handlePasswordSubmit_verify_witness:
  "gate_of (fst (setPassInput (js ''081'') (fst (handleAdminTrigger (initial_app fresh_storage))))) = Locked \<and>
   gate_of (fst (handlePasswordSubmit
     (fst (setPassInput (js ''081'') (fst (handleAdminTrigger (initial_app fresh_storage))))))) = Locked \<and>
   passInput (fst (handlePasswordSubmit
     (fst (setPassInput (js ''081'') (fst (handleAdminTrigger (initial_app fresh_storage))))))) = [] \<and>
   gate_of (fst (handlePasswordSubmit
     (fst (setPassInput (js ''0818'') (fst (handleAdminTrigger (initial_app fresh_storage))))))) = Unlocked"
proof -
  let ?s = "fst (handleAdminTrigger (initial_app fresh_storage))"
  have l1: "gate_of (fst (setPassInput (js ''081'') ?s)) = Locked"
    by (simp add: gate_of_def setPassInput_def handleAdminTrigger_def initial_app_def)
  have l2: "gate_of (fst (setPassInput (js ''0818'') ?s)) = Locked"
    by (simp add: gate_of_def setPassInput_def handleAdminTrigger_def initial_app_def)
  have p1: "passInput (fst (setPassInput (js ''081'') ?s)) \<noteq> js ''0818''"
    by (simp add: setPassInput_def js_def)
  have p2: "passInput (fst (setPassInput (js ''0818'') ?s)) = js ''0818''"
    by (simp add: setPassInput_def)
  from handlePasswordSubmit_verify [OF l1] handlePasswordSubmit_verify [OF l2] l1 p1 p2
  show ?thesis by simp
qed

section \<open>Removing and adding works\<close>

lemma filter_enumerate_other:
  "k < n \<Longrightarrow> map snd (filter (\<lambda>p. fst p \<noteq> k) (enumerate n ws)) = ws"
  by (induction ws arbitrary: n) auto

lemma filter_enumerate_index:
  "map snd (filter (\<lambda>p. fst p \<noteq> n + idx) (enumerate n ws)) = take idx ws @ drop (Suc idx) ws"
proof (induction ws arbitrary: n idx)
  case Nil
  then show ?case by simp
next
  case (Cons w ws)
  show ?case
  proof (cases idx)
    case 0
    then show ?thesis by (simp add: filter_enumerate_other)
  next
    case (Suc i)
    with Cons.IH [of "Suc n" i] show ?thesis by simp
  qed
qed

lemma removeWork_works:
  "works (editingData (fst (removeWork idx s))) =
     take idx (works (editingData s)) @ drop (Suc idx) (works (editingData s))"
  using filter_enumerate_index [of 0 idx] by (simp add: removeWork_def)

text \<open>
  Two drafts used as concrete inputs. The first has three works: the entry at index 3 is
  removed three times. The second has three works of which two have the same id: two entries
  are created at the same reading of the clock, then the entry at index 1 is removed five
  times.
\<close>

definition three_works :: app where
  "three_works = fst (removeWork 3 (fst (removeWork 3 (fst (removeWork 3 unlocked_app)))))"

definition twin_works :: app where
  "twin_works =
     run [CreateEntry 1700000000000, CreateEntry 1700000000000,
          Purge 1, Purge 1, Purge 1, Purge 1, Purge 1] unlocked_app"

lemmas fixture_simps = removeWork_def addWork_def unlocked_app_def handlePasswordSubmit_def
  setPassInput_def handleAdminTrigger_def initial_app_def fresh_storage_def DEFAULT_DATA_def
  module_heap_def work_ids_def enumerate_eq_zip Let_def

text \<open>
  C7, as amended. For every works list and every index within bounds, the removal removes
  exactly the entry at that index: the list is one shorter, and the other entries keep their
  ids and their order. The removed id is absent from the result when the ids of the list are
  unique. The index that a PURGE button passes is always within bounds; with an index out
  of bounds the filter leaves the list as it is. The store of item objects and the committed
  data are untouched, and the handler reports nothing.
\<close>

theorem removeWork_index:
  "(idx \<in> set (purge_buttons s) \<longrightarrow> idx < length (works (editingData s))) \<and>
   (idx < length (works (editingData s)) \<longrightarrow>
      works (editingData (fst (removeWork idx s))) =
        take idx (works (editingData s)) @ drop (Suc idx) (works (editingData s)) \<and>
      length (works (editingData (fst (removeWork idx s)))) = length (works (editingData s)) - 1 \<and>
      work_ids (heap (fst (removeWork idx s))) (editingData (fst (removeWork idx s))) =
        take idx (work_ids (heap s) (editingData s)) @
        drop (Suc idx) (work_ids (heap s) (editingData s)) \<and>
      (distinct (work_ids (heap s) (editingData s)) \<longrightarrow>
         work_ids (heap s) (editingData s) ! idx
           \<notin> set (work_ids (heap (fst (removeWork idx s))) (editingData (fst (removeWork idx s)))))) \<and>
   (length (works (editingData s)) \<le> idx \<longrightarrow>
      works (editingData (fst (removeWork idx s))) = works (editingData s)) \<and>
   heap (fst (removeWork idx s)) = heap s \<and>
   data (fst (removeWork idx s)) = data s \<and>
   snd (removeWork idx s) = []"
proof -
  let ?ws = "works (editingData s)"
  let ?s' = "fst (removeWork idx s)"
  have offered: "idx \<in> set (purge_buttons s) \<longrightarrow> idx < length ?ws"
    by (simp add: purge_buttons_def)
  have ws: "works (editingData ?s') = take idx ?ws @ drop (Suc idx) ?ws"
    by (rule removeWork_works)
  have h: "heap ?s' = heap s" "data ?s' = data s" "snd (removeWork idx s) = []"
    by (simp_all add: removeWork_def Let_def)
  have ids: "work_ids (heap ?s') (editingData ?s') =
      take idx (work_ids (heap s) (editingData s)) @ drop (Suc idx) (work_ids (heap s) (editingData s))"
    by (simp add: work_ids_def ws h take_map drop_map)
  have absent: "work_ids (heap s) (editingData s) ! idx \<notin> set (work_ids (heap ?s') (editingData ?s'))"
    if "idx < length ?ws" "distinct (work_ids (heap s) (editingData s))"
  proof -
    let ?ids = "work_ids (heap s) (editingData s)"
    from that(1) have len: "idx < length ?ids" by (simp add: work_ids_def)
    then have "?ids = take idx ?ids @ ?ids ! idx # drop (Suc idx) ?ids"
      by (simp add: id_take_nth_drop)
    with that(2) have "distinct (take idx ?ids @ ?ids ! idx # drop (Suc idx) ?ids)" by simp
    then show ?thesis unfolding ids by auto
  qed
  show ?thesis using offered ws h ids absent by auto
qed

theorem removeWork_index_witness:
  "purge_buttons three_works = [0, 1, 2] \<and>
   work_ids (heap three_works) (editingData three_works) = [1, 2, 3] \<and>
   work_ids (heap (fst (removeWork 1 three_works))) (editingData (fst (removeWork 1 three_works))) = [1, 3] \<and>
   length (works (editingData (fst (removeWork 1 three_works)))) = 2 \<and>
   works (editingData (fst (removeWork 3 three_works))) = works (editingData three_works)"
proof -
  have w: "works (editingData three_works) = [0, 1, 2]"
    by (simp add: fixture_simps three_works_def)
  have i: "work_ids (heap three_works) (editingData three_works) = [1, 2, 3]"
    by (simp add: fixture_simps three_works_def)
  have p: "purge_buttons three_works = [0, 1, 2]"
    by (simp add: purge_buttons_def fixture_simps three_works_def upt_rec)
  then have m: "1 \<in> set (purge_buttons three_works)" by simp
  from removeWork_index [of 1 three_works] m
  have lt: "1 < length (works (editingData three_works))" by blast
  from removeWork_index [of 1 three_works] lt
  have "work_ids (heap (fst (removeWork 1 three_works))) (editingData (fst (removeWork 1 three_works))) =
      take 1 (work_ids (heap three_works) (editingData three_works)) @
      drop (Suc 1) (work_ids (heap three_works) (editingData three_works))"
    by blast
  then have a: "work_ids (heap (fst (removeWork 1 three_works))) (editingData (fst (removeWork 1 three_works))) = [1, 3]"
    unfolding i by simp
  from removeWork_index [of 1 three_works] lt
  have "length (works (editingData (fst (removeWork 1 three_works)))) =
      length (works (editingData three_works)) - 1"
    by blast
  then have b: "length (works (editingData (fst (removeWork 1 three_works)))) = 2"
    unfolding w by simp
  have ge: "length (works (editingData three_works)) \<le> 3"
    unfolding w by simp
  from removeWork_index [of 3 three_works] ge
  have c: "works (editingData (fst (removeWork 3 three_works))) = works (editingData three_works)"
    by blast
  from p i a b c show ?thesis by blast
qed

text \<open>
  The claim as stated fails where it says that the removed id is absent: two works created
  at the same reading of the clock have the same id, and removing one of them leaves the
  other, with that id, in the list.
\<close>

theorem removeWork_twin_counterexample:
  "purge_buttons twin_works = [0, 1, 2] \<and>
   work_ids (heap twin_works) (editingData twin_works) = [1, 1700000000000, 1700000000000] \<and>
   work_ids (heap (fst (fire (Purge 1) twin_works))) (editingData (fst (fire (Purge 1) twin_works))) =
     [1, 1700000000000]"
  by (simp add: purge_buttons_def twin_works_def fixture_simps upt_rec)


text \<open>
  C6, as amended. \<open>addWork\<close> appends exactly one new work, with the title \<open>New Archive\<close>, empty
  \<open>img\<close> and \<open>url\<close>, and the reading of the clock as id; the works already present keep
  their content. The ids stay unique when they were unique and the reading of the clock is
  not among them; two calls in sequence append the two readings in order.
\<close>

theorem addWork_appends:
  "allocated (heap s) (editingData s) \<Longrightarrow>
     works (editingData (fst (addWork now s))) = works (editingData s) @ [nextWork (heap s)] \<and>
     workObjs (heap (fst (addWork now s))) (nextWork (heap s)) =
       \<lparr>id_work = now, title_work = js ''New Archive'', img = [], url = []\<rparr> \<and>
     map (workObjs (heap (fst (addWork now s)))) (works (editingData s)) =
       map (workObjs (heap s)) (works (editingData s)) \<and>
     work_ids (heap (fst (addWork now s))) (editingData (fst (addWork now s))) =
       work_ids (heap s) (editingData s) @ [now] \<and>
     (distinct (work_ids (heap s) (editingData s)) \<and> now \<notin> set (work_ids (heap s) (editingData s))
        \<longrightarrow> distinct (work_ids (heap (fst (addWork now s))) (editingData (fst (addWork now s))))) \<and>
     allocated (heap (fst (addWork now s))) (editingData (fst (addWork now s))) \<and>
     work_ids (heap (fst (addWork now' (fst (addWork now s)))))
         (editingData (fst (addWork now' (fst (addWork now s))))) =
       work_ids (heap s) (editingData s) @ [now, now'] \<and>
     snd (addWork now s) = []"
proof -
  assume al: "allocated (heap s) (editingData s)"
  let ?s' = "fst (addWork now s)"
  let ?s'' = "fst (addWork now' ?s')"
  from al have lt: "\<forall>r\<in>set (works (editingData s)). r < nextWork (heap s)"
    by (simp add: allocated_def list_all_iff)
  have w: "works (editingData ?s') = works (editingData s) @ [nextWork (heap s)]"
    by (simp add: addWork_def Let_def)
  have o: "workObjs (heap ?s') (nextWork (heap s)) =
       \<lparr>id_work = now, title_work = js ''New Archive'', img = [], url = []\<rparr>"
    by (simp add: addWork_def Let_def)
  have keep: "map (workObjs (heap ?s')) (works (editingData s)) =
       map (workObjs (heap s)) (works (editingData s))"
    using lt by (auto simp: addWork_def Let_def)
  have ids: "work_ids (heap ?s') (editingData ?s') = work_ids (heap s) (editingData s) @ [now]"
    using lt by (auto simp: work_ids_def addWork_def Let_def)
  have al': "allocated (heap ?s') (editingData ?s')"
    using al by (auto simp: allocated_def addWork_def Let_def list_all_iff)
  have lt': "\<forall>r\<in>set (works (editingData ?s')). r < nextWork (heap ?s')"
    using al' by (simp add: allocated_def list_all_iff)
  have ids2: "work_ids (heap ?s'') (editingData ?s'') = work_ids (heap ?s') (editingData ?s') @ [now']"
    using lt' by (auto simp: work_ids_def addWork_def [of now'] Let_def)
  have e: "snd (addWork now s) = []"
    by (simp add: addWork_def Let_def)
  from w o keep ids al' ids2 e show ?thesis by simp
qed

theorem addWork_appends_witness:
  "work_ids (heap (fst (addWork 1700000000000 unlocked_app)))
     (editingData (fst (addWork 1700000000000 unlocked_app))) = [1, 2, 3, 4, 5, 6, 1700000000000] \<and>
   title_work (workObjs (heap (fst (addWork 1700000000000 unlocked_app))) 6) = js ''New Archive'' \<and>
   distinct (work_ids (heap (fst (addWork 1700000000000 unlocked_app)))
     (editingData (fst (addWork 1700000000000 unlocked_app))))"
proof -
  have al: "allocated (heap unlocked_app) (editingData unlocked_app)"
    by (simp add: addWork_def unlocked_app_def handlePasswordSubmit_def setPassInput_def
        handleAdminTrigger_def initial_app_def fresh_storage_def DEFAULT_DATA_def module_heap_def
        work_ids_def allocated_def)
  have ids: "work_ids (heap unlocked_app) (editingData unlocked_app) = [1, 2, 3, 4, 5, 6]"
    by (simp add: addWork_def unlocked_app_def handlePasswordSubmit_def setPassInput_def
        handleAdminTrigger_def initial_app_def fresh_storage_def DEFAULT_DATA_def module_heap_def
        work_ids_def allocated_def)
  have nx: "nextWork (heap unlocked_app) = 6"
    by (simp add: addWork_def unlocked_app_def handlePasswordSubmit_def setPassInput_def
        handleAdminTrigger_def initial_app_def fresh_storage_def DEFAULT_DATA_def module_heap_def
        work_ids_def allocated_def)
  from addWork_appends [OF al, of 1700000000000] ids nx show ?thesis
    by simp
qed

text \<open>
  The claim as stated fails: the title of the new work is not empty, and two calls at the
  same reading of the clock give two works with the same id.
\<close>

theorem addWork_counterexample:
  "title_work (workObjs (heap (fst (addWork 1700000000000 unlocked_app)))
      (last (works (editingData (fst (addWork 1700000000000 unlocked_app)))))) \<noteq> [] \<and>
   work_ids (heap (fst (addWork 1700000000000 (fst (addWork 1700000000000 unlocked_app)))))
     (editingData (fst (addWork 1700000000000 (fst (addWork 1700000000000 unlocked_app))))) =
     [1, 2, 3, 4, 5, 6, 1700000000000, 1700000000000]"
  by (simp add: addWork_def unlocked_app_def handlePasswordSubmit_def setPassInput_def
        handleAdminTrigger_def initial_app_def fresh_storage_def DEFAULT_DATA_def module_heap_def
        work_ids_def allocated_def Let_def js_def)

section \<open>Printing and parsing are inverse on \<open>SiteData\<close>\<close>

lemma hex_decompose:
  "(n::nat) div 4096 * 4096 + n div 256 mod 16 * 256 + n div 16 mod 16 * 16 + n mod 16 = n"
proof -
  have a: "n div 16 * 16 + n mod 16 = n" by (rule div_mult_mod_eq)
  have "n div 16 div 16 = n div 256" by (simp add: div_mult2_eq [symmetric])
  with div_mult_mod_eq [of "n div 16" 16]
  have b: "n div 256 * 16 + n div 16 mod 16 = n div 16" by simp
  have "n div 256 div 16 = n div 4096" by (simp add: div_mult2_eq [symmetric])
  with div_mult_mod_eq [of "n div 256" 16]
  have c: "n div 4096 * 16 + n div 256 mod 16 = n div 256" by simp
  from a b c show ?thesis by linarith
qed

lemma hexval_hexdigit: "n < 16 \<Longrightarrow> hexval (hexdigit n) = Some (of_nat n)"
proof -
  assume "n < 16"
  then consider "n = 0" | "n = 1" | "n = 2" | "n = 3" | "n = 4" | "n = 5" | "n = 6" | "n = 7"
    | "n = 8" | "n = 9" | "n = 10" | "n = 11" | "n = 12" | "n = 13" | "n = 14" | "n = 15"
    by atomize_elim arith
  then show ?thesis
    by cases (simp_all add: hexval_def hexdigit_def)
qed

lemma hex4_unicode_escape:
  "hex4 (hexdigit (unat c div 4096)) (hexdigit (unat c div 256 mod 16))
        (hexdigit (unat c div 16 mod 16)) (hexdigit (unat c mod 16)) = Some c"
proof -
  have "unat c < 65536" using unsigned_less [of c] by simp
  then have a: "unat c div 4096 < 16" by simp
  have "(of_nat (unat c div 4096) :: jschar) * 4096 + of_nat (unat c div 256 mod 16) * 256 +
        of_nat (unat c div 16 mod 16) * 16 + of_nat (unat c mod 16) =
        of_nat (unat c div 4096 * 4096 + unat c div 256 mod 16 * 256 + unat c div 16 mod 16 * 16 +
                unat c mod 16)"
    by simp
  also have "\<dots> = c" unfolding hex_decompose by simp
  finally show ?thesis
    by (simp add: hex4_def hexval_hexdigit a)
qed

lemma lex_string_unicode_escape:
  "lex_string (unicode_escape c @ rest) = cons_fst c (lex_string rest)"
  by (simp add: unicode_escape_def hex4_unicode_escape)

lemma surrogate_plain:
  "isHighSurrogate c \<or> isLowSurrogate c \<Longrightarrow> c \<noteq> 0x22 \<and> c \<noteq> 0x5C \<and> \<not> c < 0x20"
  unfolding isHighSurrogate_def isLowSurrogate_def
  by (auto simp: word_le_nat_alt word_less_nat_alt)

lemma cons_fst_simp [simp]: "cons_fst x (Some (a, b)) = Some (x # a, b)"
  by (simp add: cons_fst_def)

lemma lex_string_quote_chars:
  "lex_string (quote_chars s @ 0x22 # rest) = Some (s, rest)"
proof (induction "length s" arbitrary: s rule: less_induct)
  case less
  show ?case
  proof (cases s)
    case Nil
    then show ?thesis by simp
  next
    case (Cons c cs)
    have IH: "lex_string (quote_chars cs @ 0x22 # rest) = Some (cs, rest)"
      using less [of cs] Cons by simp
    consider
        (esc) "c = 0x08 \<or> c = 0x09 \<or> c = 0x0A \<or> c = 0x0C \<or> c = 0x0D \<or> c = 0x22 \<or> c = 0x5C"
      | (ctl) "\<not> (c = 0x08 \<or> c = 0x09 \<or> c = 0x0A \<or> c = 0x0C \<or> c = 0x0D \<or> c = 0x22 \<or> c = 0x5C)"
          "c < 0x20"
      | (hi) "\<not> (c = 0x08 \<or> c = 0x09 \<or> c = 0x0A \<or> c = 0x0C \<or> c = 0x0D \<or> c = 0x22 \<or> c = 0x5C)"
          "\<not> c < 0x20" "isHighSurrogate c"
      | (lo) "\<not> (c = 0x08 \<or> c = 0x09 \<or> c = 0x0A \<or> c = 0x0C \<or> c = 0x0D \<or> c = 0x22 \<or> c = 0x5C)"
          "\<not> c < 0x20" "\<not> isHighSurrogate c" "isLowSurrogate c"
      | (plain) "\<not> (c = 0x08 \<or> c = 0x09 \<or> c = 0x0A \<or> c = 0x0C \<or> c = 0x0D \<or> c = 0x22 \<or> c = 0x5C)"
          "\<not> c < 0x20" "\<not> isHighSurrogate c" "\<not> isLowSurrogate c"
      by blast
    then show ?thesis
    proof cases
      case esc
      then show ?thesis
        unfolding Cons using IH by (elim disjE) (simp_all add: unescape_def)
    next
      case ctl
      then show ?thesis
        unfolding Cons using IH by (simp add: lex_string_unicode_escape)
    next
      case hi
      show ?thesis
      proof (cases cs)
        case Nil
        with hi show ?thesis
          unfolding Cons by (simp add: lex_string_unicode_escape)
      next
        case cs: (Cons d ds)
        show ?thesis
        proof (cases "isLowSurrogate d")
          case True
          with surrogate_plain [of d] have d: "d \<noteq> 0x22 \<and> d \<noteq> 0x5C \<and> \<not> d < 0x20" by simp
          have "lex_string (quote_chars ds @ 0x22 # rest) = Some (ds, rest)"
            using less [of ds] Cons cs by simp
          with hi True d show ?thesis
            unfolding Cons cs by simp
        next
          case False
          with hi IH show ?thesis
            unfolding Cons cs by (simp add: lex_string_unicode_escape)
        qed
      qed
    next
      case lo
      then show ?thesis
        unfolding Cons using IH by (simp add: lex_string_unicode_escape)
    next
      case plain
      then show ?thesis
        unfolding Cons using IH by simp
    qed
  qed
qed



lemma digit_cases:
  assumes "k < (10::nat)"
  obtains "k = 0" | "k = 1" | "k = 2" | "k = 3" | "k = 4" | "k = 5" | "k = 6" | "k = 7"
    | "k = 8" | "k = 9"
  using assms by atomize_elim arith

lemma digit_char:
  assumes "k < 10"
  shows "isDigit (0x30 + of_nat k)" and "unat ((0x30 + of_nat k :: jschar) - 0x30) = k"
    and "(0x30 + of_nat k :: jschar) = 0x30 \<longleftrightarrow> k = 0"
    and "(0x30 + of_nat k :: jschar) \<noteq> 0x2D"
    and "unat (of_nat k :: jschar) = k" and "(of_nat k :: jschar) = 0 \<longleftrightarrow> k = 0"
  using assms by (cases k rule: digit_cases; simp add: isDigit_def)+

lemma digits_all: "list_all isDigit (digits n)"
proof (induction n rule: digits.induct)
  case (1 n)
  show ?case
  proof (cases "n < 10")
    case True
    then show ?thesis by (subst digits.simps) (simp add: digit_char)
  next
    case False
    with 1 show ?thesis by (subst digits.simps) (simp add: digit_char)
  qed
qed

lemma digits_Cons: "\<exists>d ds. digits n = d # ds \<and> isDigit d \<and> (d = 0x30 \<longrightarrow> n = 0 \<and> ds = [])"
proof (induction n rule: digits.induct)
  case (1 n)
  show ?case
  proof (cases "n < 10")
    case True
    then show ?thesis by (subst digits.simps) (simp add: digit_char)
  next
    case False
    with 1 obtain d ds where d: "digits (n div 10) = d # ds" "isDigit d"
      "d = 0x30 \<longrightarrow> n div 10 = 0 \<and> ds = []"
      by blast
    from False have "n div 10 \<noteq> 0" by simp
    with d False show ?thesis by (subst digits.simps) simp
  qed
qed

lemma read_nat_digits: "read_nat (digits n) = n"
proof (induction n rule: digits.induct)
  case (1 n)
  show ?case
  proof (cases "n < 10")
    case True
    then show ?thesis by (subst digits.simps) (simp add: read_nat_def digit_char)
  next
    case False
    with 1 have "read_nat (digits (n div 10)) = n div 10" by simp
    with False show ?thesis
      by (subst digits.simps) (simp add: read_nat_def digit_char)
  qed
qed

lemma read_int_show_int: "read_int (show_int n) = n"
proof (cases "n < 0")
  case True
  then show ?thesis by (simp add: read_int_def show_int_def read_nat_digits)
next
  case False
  obtain d ds where d: "digits (nat n) = d # ds" "isDigit d" using digits_Cons by blast
  then have "d \<noteq> 0x2D" by (auto simp: isDigit_def)
  with False d(1) read_nat_digits [of "nat n"] show ?thesis
    by (simp add: read_int_def show_int_def)
qed

lemma as_safe_integer_show_int:
  "\<bar>n\<bar> \<le> 9007199254740991 \<Longrightarrow> as_safe_integer (Some (JNum (show_int n))) = Some n"
  by (simp add: read_int_show_int)

text \<open>What may follow a number literal without extending it.\<close>

definition number_end :: "jsstring \<Rightarrow> bool" where
  "number_end rest \<longleftrightarrow>
     (case rest of [] \<Rightarrow> True | c # _ \<Rightarrow> \<not> isDigit c \<and> c \<noteq> 0x2E \<and> c \<noteq> 0x65 \<and> c \<noteq> 0x45)"

lemma lex_frac_end: "number_end rest \<Longrightarrow> lex_frac rest = Some ([], rest)"
  by (cases rest) (auto simp: number_end_def)

lemma lex_exp_end: "number_end rest \<Longrightarrow> lex_exp rest = Some ([], rest)"
  by (cases rest) (auto simp: number_end_def)

lemma takeWhile_digits:
  "list_all isDigit ds \<Longrightarrow> number_end rest \<Longrightarrow>
   takeWhile isDigit (ds @ rest) = ds \<and> dropWhile isDigit (ds @ rest) = rest"
  by (induction ds) (auto simp: number_end_def split: list.splits)

lemma lex_unsigned_digits:
  assumes "number_end rest"
  shows "lex_unsigned (digits n @ rest) = Some (digits n, rest)"
proof -
  obtain d ds where d: "digits n = d # ds" "isDigit d" "d = 0x30 \<longrightarrow> n = 0 \<and> ds = []"
    using digits_Cons by blast
  from digits_all [of n] d(1) have ds: "list_all isDigit ds" by simp
  have "lex_int (digits n @ rest) = Some (digits n, rest)"
    using d takeWhile_digits [OF ds assms] by auto
  then show ?thesis
    by (simp add: lex_unsigned_def lex_frac_end [OF assms] lex_exp_end [OF assms])
qed

lemma lex_number_show_int:
  assumes "number_end rest"
  shows "lex_number (show_int n @ rest) = Some (show_int n, rest)"
proof (cases "n < 0")
  case True
  then show ?thesis
    by (simp add: show_int_def lex_unsigned_digits [OF assms])
next
  case False
  obtain d ds where d: "digits (nat n) = d # ds" "isDigit d" using digits_Cons by blast
  then have "d \<noteq> 0x2D" by (auto simp: isDigit_def)
  with False d(1) lex_unsigned_digits [OF assms, of "nat n"] show ?thesis
    by (simp add: show_int_def)
qed

lemma show_int_Cons: "\<exists>c cs. show_int n = c # cs \<and> (c = 0x2D \<or> isDigit c)"
  using digits_Cons [of "nat n"] by (auto simp: show_int_def)

lemma isDigit_not_structural:
  "c = 0x2D \<or> isDigit c \<Longrightarrow>
   \<not> isWhiteSpace c \<and> c \<noteq> 0x7B \<and> c \<noteq> 0x7D \<and> c \<noteq> 0x5B \<and> c \<noteq> 0x5D \<and> c \<noteq> 0x3A \<and> c \<noteq> 0x2C \<and> c \<noteq> 0x22"
  by (auto simp: isDigit_def isWhiteSpace_def)

lemma lex_show_int:
  assumes "number_end rest"
  shows "lex (show_int n @ rest) = map_option (Cons (TNum (show_int n))) (lex rest)"
proof -
  obtain c cs where c: "show_int n = c # cs" "c = 0x2D \<or> isDigit c"
    using show_int_Cons by blast
  from lex_number_show_int [OF assms, of n] c(1)
  have "lex_number (c # cs @ rest) = Some (c # cs, rest)" by simp
  with isDigit_not_structural [OF c(2)] c show ?thesis
    by (simp del: lex_number.simps)
qed

lemma lex_quote:
  "lex (quote s @ rest) = map_option (Cons (TStr s)) (lex rest)"
  by (simp add: quote_def lex_string_quote_chars isWhiteSpace_def)



text \<open>The tokens and the parsed value of what \<open>JSON_stringify\<close> prints.\<close>

fun comma_tokens :: "token list list \<Rightarrow> token list" where
  "comma_tokens [] = []"
| "comma_tokens (t # ts) = t @ concat (map (Cons TComma) ts)"

definition career_tokens :: "CareerItem \<Rightarrow> token list" where
  "career_tokens c =
     [TLBrace, TStr (js ''date''), TColon, TStr (date c), TComma,
      TStr (js ''title''), TColon, TStr (title c), TComma,
      TStr (js ''role''), TColon, TStr (role c), TRBrace]"

definition work_tokens :: "WorkItem \<Rightarrow> token list" where
  "work_tokens w =
     [TLBrace, TStr (js ''id''), TColon, TNum (show_int (id_work w)), TComma,
      TStr (js ''title''), TColon, TStr (title_work w), TComma,
      TStr (js ''img''), TColon, TStr (img w), TComma,
      TStr (js ''url''), TColon, TStr (url w), TRBrace]"

definition career_json :: "CareerItem \<Rightarrow> json" where
  "career_json c =
     JObj [(js ''date'', JStr (date c)), (js ''title'', JStr (title c)), (js ''role'', JStr (role c))]"

definition work_json :: "WorkItem \<Rightarrow> json" where
  "work_json w =
     JObj [(js ''id'', JNum (show_int (id_work w))), (js ''title'', JStr (title_work w)),
           (js ''img'', JStr (img w)), (js ''url'', JStr (url w))]"

lemma lex_punct:
  "lex (0x7B # rest) = map_option (Cons TLBrace) (lex rest)"
  "lex (0x7D # rest) = map_option (Cons TRBrace) (lex rest)"
  "lex (0x5B # rest) = map_option (Cons TLBrack) (lex rest)"
  "lex (0x5D # rest) = map_option (Cons TRBrack) (lex rest)"
  "lex (0x3A # rest) = map_option (Cons TColon) (lex rest)"
  "lex (0x2C # rest) = map_option (Cons TComma) (lex rest)"
  by (simp_all add: isWhiteSpace_def)

lemma lex_member:
  "lex (member k v @ rest) = map_option (\<lambda>ts. TStr (js k) # TColon # ts) (lex (v @ rest))"
  by (cases "lex (v @ rest)") (simp_all add: member_def lex_quote lex_punct del: lex.simps)

lemma number_end_comma: "number_end (0x2C # rest)"
  by (simp add: number_end_def isDigit_def)

lemma lex_stringify_career:
  "lex (stringify_career c @ rest) = map_option ((@) (career_tokens c)) (lex rest)"
  by (cases "lex rest")
     (simp_all add: stringify_career_def career_tokens_def lex_member lex_quote lex_punct
        del: lex.simps)

lemma lex_stringify_work:
  "lex (stringify_work w @ rest) = map_option ((@) (work_tokens w)) (lex rest)"
  by (cases "lex rest")
     (simp_all add: stringify_work_def work_tokens_def lex_member lex_quote lex_punct
        lex_show_int number_end_comma del: lex.simps)

lemma lex_comma_list:
  assumes "\<And>x rest. lex (pr x @ rest) = map_option ((@) (tk x)) (lex rest)"
  shows "lex (concat (map (\<lambda>x. 0x2C # pr x) xs) @ rest) =
         map_option ((@) (concat (map (\<lambda>x. TComma # tk x) xs))) (lex rest)"
proof (induction xs)
  case Nil
  then show ?case by (cases "lex rest") simp_all
next
  case (Cons x xs)
  then show ?case
    by (cases "lex rest") (simp_all add: lex_punct assms del: lex.simps)
qed

lemma lex_commas:
  assumes "\<And>x rest. lex (pr x @ rest) = map_option ((@) (tk x)) (lex rest)"
  shows "lex (commas (map pr xs) @ rest) =
         map_option ((@) (comma_tokens (map tk xs))) (lex rest)"
proof (cases xs)
  case Nil
  then show ?thesis by (cases "lex rest") simp_all
next
  case (Cons x xs')
  then show ?thesis
    using lex_comma_list [of pr tk xs' rest, OF assms]
    by (cases "lex rest") (simp_all add: assms comp_def del: lex.simps)
qed



lemma prun_append:
  "prun m st (a @ b) = (case prun m st a of None \<Rightarrow> None | Some (m', st') \<Rightarrow> prun m' st' b)"
  by (induction a arbitrary: m st) (auto split: option.splits)

lemma js_keys_distinct:
  "js ''date'' \<noteq> js ''title''" "js ''date'' \<noteq> js ''role''" "js ''title'' \<noteq> js ''role''"
  "js ''id'' \<noteq> js ''title''" "js ''id'' \<noteq> js ''img''" "js ''id'' \<noteq> js ''url''"
  "js ''title'' \<noteq> js ''img''" "js ''title'' \<noteq> js ''url''" "js ''img'' \<noteq> js ''url''"
  "js ''profileImg'' \<noteq> js ''bio''" "js ''profileImg'' \<noteq> js ''career''"
  "js ''profileImg'' \<noteq> js ''works''" "js ''bio'' \<noteq> js ''career''"
  "js ''bio'' \<noteq> js ''works''" "js ''career'' \<noteq> js ''works''"
  by (simp_all add: js_def)

lemma prun_career:
  "m = PValue \<or> m = PValueOrEnd \<Longrightarrow>
   prun m (FArr xs # st) (career_tokens c @ ts) = prun PAfter (FArr (xs @ [career_json c]) # st) ts"
  by (auto simp: career_tokens_def career_json_def js_keys_distinct js_keys_distinct [symmetric])

lemma prun_work:
  "m = PValue \<or> m = PValueOrEnd \<Longrightarrow>
   prun m (FArr xs # st) (work_tokens w @ ts) = prun PAfter (FArr (xs @ [work_json w]) # st) ts"
  by (auto simp: work_tokens_def work_json_def js_keys_distinct js_keys_distinct [symmetric])

lemma prun_comma_list:
  assumes "\<And>x xs st ts. prun PValue (FArr xs # st) (tk x @ ts) =
             prun PAfter (FArr (xs @ [jv x]) # st) ts"
  shows "prun PAfter (FArr ys # st) (concat (map (\<lambda>x. TComma # tk x) xs) @ ts) =
         prun PAfter (FArr (ys @ map jv xs) # st) ts"
proof (induction xs arbitrary: ys)
  case Nil
  then show ?case by simp
next
  case (Cons x xs)
  then show ?case by (simp add: assms)
qed

lemma prun_array:
  assumes "\<And>m x xs st ts. m = PValue \<or> m = PValueOrEnd \<Longrightarrow>
             prun m (FArr xs # st) (tk x @ ts) = prun PAfter (FArr (xs @ [jv x]) # st) ts"
  shows "prun PValue (FKey ms k # st) (TLBrack # comma_tokens (map tk xs) @ TRBrack # ts) =
         prun PAfter (FObj (AList.update k (JArr (map jv xs)) ms) # st) ts"
proof (cases xs)
  case Nil
  then show ?thesis by simp
next
  case (Cons x xs')
  have "prun PValue (FKey ms k # st) (TLBrack # comma_tokens (map tk xs) @ TRBrack # ts) =
        prun PValueOrEnd (FArr [] # FKey ms k # st)
          (tk x @ concat (map (\<lambda>x. TComma # tk x) xs') @ TRBrack # ts)"
    using Cons by (simp add: comp_def)
  also have "\<dots> = prun PAfter (FArr [jv x] # FKey ms k # st)
          (concat (map (\<lambda>x. TComma # tk x) xs') @ TRBrack # ts)"
    using assms [of PValueOrEnd "[]"] by simp
  also have "\<dots> = prun PAfter (FArr ([jv x] @ map jv xs') # FKey ms k # st) (TRBrack # ts)"
    by (rule prun_comma_list) (simp add: assms)
  finally show ?thesis using Cons by simp
qed

definition site_tokens :: "js_heap \<Rightarrow> SiteData \<Rightarrow> token list" where
  "site_tokens h d =
     [TLBrace, TStr (js ''profileImg''), TColon, TStr (profileImg d), TComma,
      TStr (js ''bio''), TColon, TStr (bio d), TComma, TStr (js ''career''), TColon] @
     (TLBrack # comma_tokens (map (\<lambda>r. career_tokens (careerObjs h r)) (career d)) @
      TRBrack # [TComma, TStr (js ''works''), TColon] @
     (TLBrack # comma_tokens (map (\<lambda>r. work_tokens (workObjs h r)) (works d)) @
      [TRBrack, TRBrace]))"

definition site_json :: "js_heap \<Rightarrow> SiteData \<Rightarrow> json" where
  "site_json h d =
     JObj [(js ''profileImg'', JStr (profileImg d)), (js ''bio'', JStr (bio d)),
           (js ''career'', JArr (map (\<lambda>r. career_json (careerObjs h r)) (career d))),
           (js ''works'', JArr (map (\<lambda>r. work_json (workObjs h r)) (works d)))]"

lemma lex_JSON_stringify: "lex (JSON_stringify h d) = Some (site_tokens h d)"
proof -
  have c: "lex (commas (map (\<lambda>r. stringify_career (careerObjs h r)) (career d)) @ rest) =
      map_option ((@) (comma_tokens (map (\<lambda>r. career_tokens (careerObjs h r)) (career d)))) (lex rest)"
    for rest
    using lex_commas [of stringify_career career_tokens "map (careerObjs h) (career d)" rest]
    by (simp add: lex_stringify_career comp_def)
  have w: "lex (commas (map (\<lambda>r. stringify_work (workObjs h r)) (works d)) @ rest) =
      map_option ((@) (comma_tokens (map (\<lambda>r. work_tokens (workObjs h r)) (works d)))) (lex rest)"
    for rest
    using lex_commas [of stringify_work work_tokens "map (workObjs h) (works d)" rest]
    by (simp add: lex_stringify_work comp_def)
  show ?thesis
    by (simp add: JSON_stringify_def site_tokens_def lex_member lex_quote lex_punct c w
        del: lex.simps(2) commas.simps comma_tokens.simps)
qed

lemma parse_site_tokens: "parse_tokens (site_tokens h d) = Some (site_json h d)"
proof -
  let ?ms1 = "[(js ''profileImg'', JStr (profileImg d)), (js ''bio'', JStr (bio d))]"
  let ?cs = "JArr (map (\<lambda>r. career_json (careerObjs h r)) (career d))"
  let ?ws = "JArr (map (\<lambda>r. work_json (workObjs h r)) (works d))"
  let ?wt = "TLBrack # comma_tokens (map (\<lambda>r. work_tokens (workObjs h r)) (works d)) @
      TRBrack # [TRBrace]"
  let ?ct = "TLBrack # comma_tokens (map (\<lambda>r. career_tokens (careerObjs h r)) (career d)) @
      TRBrack # ([TComma, TStr (js ''works''), TColon] @ ?wt)"
  have "prun PValue [] (site_tokens h d) = prun PValue [FKey ?ms1 (js ''career'')] ?ct"
    by (simp add: site_tokens_def js_keys_distinct js_keys_distinct [symmetric]
        del: comma_tokens.simps)
  also have "\<dots> = prun PAfter [FObj (AList.update (js ''career'') ?cs ?ms1)]
      ([TComma, TStr (js ''works''), TColon] @ ?wt)"
    using prun_array [of "\<lambda>r. career_tokens (careerObjs h r)" "\<lambda>r. career_json (careerObjs h r)"
        ?ms1 "js ''career''" "[]" "career d"]
    by (simp add: prun_career del: comma_tokens.simps)
  also have "\<dots> = prun PValue [FKey (?ms1 @ [(js ''career'', ?cs)]) (js ''works'')] ?wt"
    by (simp add: js_keys_distinct js_keys_distinct [symmetric] del: comma_tokens.simps)
  also have "\<dots> = prun PAfter
      [FObj (AList.update (js ''works'') ?ws (?ms1 @ [(js ''career'', ?cs)]))] [TRBrace]"
    using prun_array [of "\<lambda>r. work_tokens (workObjs h r)" "\<lambda>r. work_json (workObjs h r)"
        "?ms1 @ [(js ''career'', ?cs)]" "js ''works''" "[]" "works d" "[TRBrace]"]
    by (simp add: prun_work del: comma_tokens.simps)
  also have "\<dots> = Some (PDone (site_json h d), [])"
    by (simp add: site_json_def js_keys_distinct js_keys_distinct [symmetric])
  finally show ?thesis
    by (simp add: parse_tokens_def)
qed

lemma JSON_parse_stringify: "JSON_parse (JSON_stringify h d) = Some (site_json h d)"
  by (simp add: JSON_parse_def lex_JSON_stringify parse_site_tokens)

lemma JSON_stringify_nonempty: "JSON_stringify h d \<noteq> []"
  by (simp add: JSON_stringify_def)

lemma career_of_json: "career_of (career_json c) = Some c"
  by (simp add: career_json_def js_keys_distinct js_keys_distinct [symmetric])

lemma work_of_json:
  "\<bar>id_work w\<bar> \<le> 9007199254740991 \<Longrightarrow> work_of (work_json w) = Some w"
  by (simp add: work_json_def js_keys_distinct js_keys_distinct [symmetric]
      as_safe_integer_show_int del: as_safe_integer.simps)

lemma those_map_Some: "(\<And>x. x \<in> set xs \<Longrightarrow> f (g x) = Some x) \<Longrightarrow> those (map (\<lambda>x. f (g x)) xs) = Some xs"
  by (induction xs) auto

text \<open>
  The ids of a \<open>SiteData\<close> are safe integers: what a valid, serializable \<open>SiteData\<close>
  holds.
\<close>

definition safe_ids :: "js_heap \<Rightarrow> SiteData \<Rightarrow> bool" where
  "safe_ids h d \<longleftrightarrow> list_all (\<lambda>r. \<bar>id_work (workObjs h r)\<bar> \<le> 9007199254740991) (works d)"

lemma site_of_json:
  assumes "safe_ids h d"
  shows "site_of (site_json h d) = Some (view h d)"
proof -
  have c: "those (map (\<lambda>r. career_of (career_json (careerObjs h r))) (career d)) =
      Some (map (careerObjs h) (career d))"
    using those_map_Some [of "map (careerObjs h) (career d)" career_of career_json]
    by (simp add: career_of_json comp_def)
  have "work_of (work_json x) = Some x" if "x \<in> set (map (workObjs h) (works d))" for x
    using that assms by (auto simp: safe_ids_def list_all_iff intro: work_of_json)
  from those_map_Some [of "map (workObjs h) (works d)" work_of work_json, OF this]
  have w: "those (map (\<lambda>r. work_of (work_json (workObjs h r))) (works d)) =
      Some (map (workObjs h) (works d))"
    by (simp add: comp_def)
  show ?thesis
    by (simp add: site_json_def view_def c w comp_def js_keys_distinct
        js_keys_distinct [symmetric])
qed

section \<open>The persisted snapshot\<close>

text \<open>A browser that rejects every write, and one that holds a given text as the snapshot.\<close>

definition full_storage :: storage where
  "full_storage = \<lparr>items = Map.empty, accepts = (\<lambda>_ _. False)\<rparr>"

definition stored :: "jsstring \<Rightarrow> storage" where
  "stored text = \<lparr>items = [storage_key \<mapsto> text], accepts = (\<lambda>_ _. True)\<rparr>"

lemmas run_defs = handleAdminTrigger_def setPassInput_def handlePasswordSubmit_def closeAdmin_def
  resetToDefault_def setProfileImage_def setBio_def updateCareerItem_def updateWorkField_def
  addWork_def removeWork_def saveToLocal_def onloadend_def initial_app_def unlocked_app_def
  fresh_storage_def setItem_def getItem_def removeItem_def

lemma alloc_careers_frame:
  "nextCareer (snd (alloc_careers cs h)) = nextCareer h + length cs \<and>
   workObjs (snd (alloc_careers cs h)) = workObjs h \<and>
   nextWork (snd (alloc_careers cs h)) = nextWork h \<and>
   (\<forall>r<nextCareer h. careerObjs (snd (alloc_careers cs h)) r = careerObjs h r)"
  by (induction cs arbitrary: h) (simp_all add: Let_def)

lemma alloc_careers_view:
  "map (careerObjs (snd (alloc_careers cs h))) (fst (alloc_careers cs h)) = cs"
proof (induction cs arbitrary: h)
  case Nil
  then show ?case by simp
next
  case (Cons c cs)
  let ?h' = "h\<lparr>careerObjs := (careerObjs h)(nextCareer h := c), nextCareer := Suc (nextCareer h)\<rparr>"
  from alloc_careers_frame [of cs ?h']
  have "careerObjs (snd (alloc_careers cs ?h')) (nextCareer h) = c" by simp
  with Cons.IH [of ?h'] show ?case by (simp add: Let_def)
qed

lemma alloc_works_frame:
  "nextWork (snd (alloc_works ws h)) = nextWork h + length ws \<and>
   careerObjs (snd (alloc_works ws h)) = careerObjs h \<and>
   nextCareer (snd (alloc_works ws h)) = nextCareer h \<and>
   (\<forall>r<nextWork h. workObjs (snd (alloc_works ws h)) r = workObjs h r)"
  by (induction ws arbitrary: h) (simp_all add: Let_def)

lemma alloc_works_view:
  "map (workObjs (snd (alloc_works ws h))) (fst (alloc_works ws h)) = ws"
proof (induction ws arbitrary: h)
  case Nil
  then show ?case by simp
next
  case (Cons w ws)
  let ?h' = "h\<lparr>workObjs := (workObjs h)(nextWork h := w), nextWork := Suc (nextWork h)\<rparr>"
  from alloc_works_frame [of ws ?h']
  have "workObjs (snd (alloc_works ws ?h')) (nextWork h) = w" by simp
  with Cons.IH [of ?h'] show ?case by (simp add: Let_def)
qed

lemma view_install: "view (snd (install v h)) (fst (install v h)) = v"
proof -
  obtain p b cs ws where v: "v = (p, b, cs, ws)" by (cases v) auto
  let ?rc = "alloc_careers cs h"
  let ?rw = "alloc_works ws (snd ?rc)"
  have "map (careerObjs (snd ?rw)) (fst ?rc) = map (careerObjs (snd ?rc)) (fst ?rc)"
    using alloc_works_frame [of ws "snd ?rc"] by simp
  then have "map (careerObjs (snd ?rw)) (fst ?rc) = cs"
    by (simp add: alloc_careers_view)
  then show ?thesis
    by (simp add: v install_def view_def Let_def alloc_works_view)
qed

text \<open>
  The render of a \<open>SiteData\<close> raises nothing: \<open>getYoutubeId\<close> always finds its second group.
\<close>

lemma getYoutubeId_total: "\<exists>r. getYoutubeId u = Inr r"
proof (cases "exec_from regExp 0 u")
  case None
  then show ?thesis by (simp add: getYoutubeId_def)
next
  case (Some m)
  from exec_regExp_Some [OF Some] obtain g where "m 2 = Some g" by auto
  with Some show ?thesis by (simp add: getYoutubeId_def)
qed

lemma getThumbnail_total: "\<exists>t. getThumbnail w = Inr t"
proof -
  from getYoutubeId_total [of "url w"] obtain r where "getYoutubeId (url w) = Inr r" by blast
  then show ?thesis by (cases r) (simp_all add: getThumbnail_def)
qed

lemma render_works_silent: "render_works ws = []"
proof (induction ws)
  case Nil
  then show ?case by simp
next
  case (Cons w ws)
  from getThumbnail_total [of w] obtain t where "getThumbnail w = Inr t" by blast
  with Cons.IH show ?case by simp
qed

lemma render_silent: "render h d = []"
  by (simp add: render_def render_works_silent)

lemma mount_typed:
  "useEffect_load (initial_app st) = (Inr s', effs) \<Longrightarrow> mount st = (Inr s', effs)"
  by (simp add: mount_def render_silent)

lemma mount_state: "fst (mount st) = fst (useEffect_load (initial_app st))"
  by (cases "useEffect_load (initial_app st)" rule: prod.exhaust; cases "fst (useEffect_load (initial_app st))")
     (simp_all add: mount_def)

text \<open>
  C3. Round trip: for every \<open>SiteData\<close> with safe integer ids, when the commit writes the
  snapshot, loading the page from that snapshot gives data that reads exactly as the
  committed data did (same strings, same items in the same order), with no diagnostic.
\<close>

theorem commit_load_roundtrip:
  "safe_ids (heap s) S \<Longrightarrow>
   accepts (localStorage s) storage_key (JSON_stringify (heap s) S) \<Longrightarrow>
     map_sum id (\<lambda>s'. view (heap s') (data s')) (fst (mount (localStorage (fst (saveToLocal S s))))) =
       Inr (view (heap s) S) \<and>
     snd (mount (localStorage (fst (saveToLocal S s)))) = []"
proof -
  assume safe: "safe_ids (heap s) S"
    and ok: "accepts (localStorage s) storage_key (JSON_stringify (heap s) S)"
  let ?text = "JSON_stringify (heap s) S"
  let ?st = "localStorage (fst (saveToLocal S s))"
  from ok have "getItem storage_key ?st = Some ?text"
    by (simp add: saveToLocal_def setItem_def getItem_def)
  moreover have "site_of (site_json (heap s) S) = Some (view (heap s) S)"
    by (rule site_of_json [OF safe])
  ultimately show ?thesis
    by (simp add: mount_def render_silent useEffect_load_def initial_app_def
        JSON_stringify_nonempty JSON_parse_stringify Let_def view_install)
qed

theorem commit_load_roundtrip_witness:
  "map_sum id (\<lambda>s'. view (heap s') (data s'))
     (fst (mount (localStorage (fst (saveToLocal
        (editingData (run [BioInput (js ''hello''), CreateEntry 1700000000000] unlocked_app))
        (run [BioInput (js ''hello''), CreateEntry 1700000000000] unlocked_app)))))) =
     Inr (view (heap (run [BioInput (js ''hello''), CreateEntry 1700000000000] unlocked_app))
        (editingData (run [BioInput (js ''hello''), CreateEntry 1700000000000] unlocked_app)))"
proof -
  let ?s = "run [BioInput (js ''hello''), CreateEntry 1700000000000] unlocked_app"
  have safe: "safe_ids (heap ?s) (editingData ?s)"
    by (simp add: safe_ids_def run_defs DEFAULT_DATA_def module_heap_def Let_def)
  have ok: "accepts (localStorage ?s) storage_key (JSON_stringify (heap ?s) (editingData ?s))"
    by (simp add: run_defs Let_def)
  from commit_load_roundtrip [OF safe ok] show ?thesis by simp
qed

text \<open>
  C4, as amended. For a snapshot that is absent, empty, not JSON, or the JSON text of a
  \<open>SiteData\<close>, loading raises nothing. An absent snapshot and an empty one keep the default
  data, without a diagnostic; a non-empty snapshot that is not JSON keeps the default data
  and logs one diagnostic; a snapshot that is the JSON text of a \<open>SiteData\<close> becomes the data
  and the draft, without a diagnostic. Nothing is stated about a snapshot that is JSON of
  another shape.
\<close>

theorem mount_cases:
  "(getItem storage_key st = None \<or> getItem storage_key st = Some [] \<longrightarrow>
      mount st = (Inr (initial_app st), [])) \<and>
   (\<forall>saved. getItem storage_key st = Some saved \<and> saved \<noteq> [] \<and> JSON_parse saved = None \<longrightarrow>
      mount st = (Inr (initial_app st), [ConsoleError (js ''Failed to parse saved data'')])) \<and>
   (\<forall>saved parsed v. getItem storage_key st = Some saved \<and> saved \<noteq> [] \<and>
        JSON_parse saved = Some parsed \<and> site_of parsed = Some v \<longrightarrow>
      map_sum id (\<lambda>s'. view (heap s') (data s')) (fst (mount st)) = Inr v \<and>
      map_sum id (\<lambda>s'. editingData s' = data s') (fst (mount st)) = Inr True \<and>
      snd (mount st) = []) \<and>
   view (heap (initial_app st)) (data (initial_app st)) = view module_heap DEFAULT_DATA"
proof -
  have ls: "localStorage (initial_app st) = st" by (simp add: initial_app_def)
  have a: "getItem storage_key st = None \<or> getItem storage_key st = Some [] \<longrightarrow>
      mount st = (Inr (initial_app st), [])"
    by (auto simp: mount_def render_silent useEffect_load_def ls)
  have b: "\<forall>saved. getItem storage_key st = Some saved \<and> saved \<noteq> [] \<and> JSON_parse saved = None \<longrightarrow>
      mount st = (Inr (initial_app st), [ConsoleError (js ''Failed to parse saved data'')])"
    by (auto simp: mount_def render_silent useEffect_load_def ls)
  have c: "\<forall>saved parsed v. getItem storage_key st = Some saved \<and> saved \<noteq> [] \<and>
        JSON_parse saved = Some parsed \<and> site_of parsed = Some v \<longrightarrow>
      map_sum id (\<lambda>s'. view (heap s') (data s')) (fst (mount st)) = Inr v \<and>
      map_sum id (\<lambda>s'. editingData s' = data s') (fst (mount st)) = Inr True \<and>
      snd (mount st) = []"
    by (auto simp: mount_def render_silent useEffect_load_def ls Let_def view_install)
  have d: "view (heap (initial_app st)) (data (initial_app st)) = view module_heap DEFAULT_DATA"
    by (simp add: initial_app_def)
  from a b c d show ?thesis by blast
qed

theorem mount_cases_witness:
  "mount fresh_storage = (Inr (initial_app fresh_storage), []) \<and>
   mount (stored []) = (Inr (initial_app (stored [])), []) \<and>
   mount (stored (js ''{oops'')) =
     (Inr (initial_app (stored (js ''{oops''))), [ConsoleError (js ''Failed to parse saved data'')]) \<and>
   map_sum id (\<lambda>s'. view (heap s') (data s'))
     (fst (mount (stored (JSON_stringify module_heap DEFAULT_DATA)))) =
     Inr (view module_heap DEFAULT_DATA) \<and>
   snd (mount (stored (JSON_stringify module_heap DEFAULT_DATA))) = []"
proof -
  have a: "getItem storage_key fresh_storage = None"
    by (simp add: getItem_def fresh_storage_def)
  have a': "getItem storage_key (stored []) = Some []"
    by (simp add: getItem_def stored_def)
  have b: "getItem storage_key (stored (js ''{oops'')) = Some (js ''{oops'') \<and> js ''{oops'' \<noteq> [] \<and>
      JSON_parse (js ''{oops'') = None"
    by (simp add: getItem_def stored_def JSON_parse_def js_def isWhiteSpace_def isDigit_def)
  have c: "getItem storage_key (stored (JSON_stringify module_heap DEFAULT_DATA)) =
        Some (JSON_stringify module_heap DEFAULT_DATA) \<and>
      JSON_stringify module_heap DEFAULT_DATA \<noteq> [] \<and>
      JSON_parse (JSON_stringify module_heap DEFAULT_DATA) = Some (site_json module_heap DEFAULT_DATA)"
    by (simp add: getItem_def stored_def JSON_stringify_nonempty JSON_parse_stringify)
  have "safe_ids module_heap DEFAULT_DATA"
    by (simp add: safe_ids_def module_heap_def DEFAULT_DATA_def)
  then have d: "site_of (site_json module_heap DEFAULT_DATA) = Some (view module_heap DEFAULT_DATA)"
    by (rule site_of_json)
  from mount_cases [of fresh_storage] a
  have 1: "mount fresh_storage = (Inr (initial_app fresh_storage), [])" by blast
  from mount_cases [of "stored []"] a'
  have 2: "mount (stored []) = (Inr (initial_app (stored [])), [])" by blast
  from mount_cases [of "stored (js ''{oops'')"] b
  have 3: "mount (stored (js ''{oops'')) =
     (Inr (initial_app (stored (js ''{oops''))), [ConsoleError (js ''Failed to parse saved data'')])"
    by blast
  from mount_cases [of "stored (JSON_stringify module_heap DEFAULT_DATA)"] c d
  have 4: "map_sum id (\<lambda>s'. view (heap s') (data s'))
     (fst (mount (stored (JSON_stringify module_heap DEFAULT_DATA)))) =
     Inr (view module_heap DEFAULT_DATA) \<and>
     snd (mount (stored (JSON_stringify module_heap DEFAULT_DATA))) = []" by blast
  from 1 2 3 4 show ?thesis by blast
qed

text \<open>
  The claim as stated fails on the empty string: it is a present snapshot, \<open>JSON.parse\<close>
  rejects it, and \<open>if (saved)\<close> skips it, so that nothing is logged.
\<close>

theorem mount_counterexample:
  "getItem storage_key (stored []) = Some [] \<and> JSON_parse [] = None \<and>
   mount (stored []) = (Inr (initial_app (stored [])), [])"
  by (simp add: mount_def render_silent useEffect_load_def initial_app_def getItem_def stored_def
      JSON_parse_def parse_tokens_def)

text \<open>
  The shape of a parsed snapshot is not checked. A snapshot that is JSON and not a
  \<open>SiteData\<close> is stored as the data, and the render that follows reads fields that it does
  not have: with \<open>{}\<close> the call \<open>data.career.map\<close> raises, with \<open>null\<close> the read \<open>data.bio\<close>
  does. The exception is raised outside the \<open>try\<close> of the effect.
\<close>

lemma mount_unchecked_shape:
  "mount (stored (js ''{}'')) = (Inl (JObj []), [Uncaught TypeError]) \<and>
   mount (stored (js ''null'')) = (Inl JNull, [Uncaught TypeError])"
  by (simp add: mount_def render_parsed_def useEffect_load_def initial_app_def getItem_def
      stored_def JSON_parse_def parse_tokens_def js_def isWhiteSpace_def isDigit_def)

text \<open>
  C5, as amended. The commit is not atomic. The in-memory data is replaced first. When the
  write succeeds the snapshot is the text of the new data, and the editor closes with a
  notice. When the write fails the exception escapes: the in-memory data is the new data,
  the snapshot keeps its previous content, and the gate stays as it was.
\<close>

theorem saveToLocal_not_atomic:
  "(accepts (localStorage s) storage_key (JSON_stringify (heap s) newData) \<longrightarrow>
      data (fst (saveToLocal newData s)) = newData \<and>
      getItem storage_key (localStorage (fst (saveToLocal newData s))) =
        Some (JSON_stringify (heap s) newData) \<and>
      gate_of (fst (saveToLocal newData s)) = Closed \<and>
      (\<exists>notice. snd (saveToLocal newData s) = [Alert notice])) \<and>
   (\<not> accepts (localStorage s) storage_key (JSON_stringify (heap s) newData) \<longrightarrow>
      data (fst (saveToLocal newData s)) = newData \<and>
      localStorage (fst (saveToLocal newData s)) = localStorage s \<and>
      gate_of (fst (saveToLocal newData s)) = gate_of s \<and>
      snd (saveToLocal newData s) = [Uncaught QuotaExceededError])"
  by (simp add: saveToLocal_def setItem_def getItem_def gate_of_def)

theorem saveToLocal_not_atomic_witness:
  "bio (data (run [BioInput (js ''new''), Commit] unlocked_app)) = js ''new'' \<and>
   getItem storage_key (localStorage (run [BioInput (js ''new''), Commit] unlocked_app)) =
     Some (JSON_stringify (heap (run [BioInput (js ''new'')] unlocked_app))
            (editingData (run [BioInput (js ''new'')] unlocked_app))) \<and>
   gate_of (run [BioInput (js ''new''), Commit] unlocked_app) = Closed \<and>
   data (fst (saveToLocal (editingData unlocked_app) (unlocked_app\<lparr>localStorage := full_storage\<rparr>))) =
     editingData unlocked_app \<and>
   localStorage (fst (saveToLocal (editingData unlocked_app)
     (unlocked_app\<lparr>localStorage := full_storage\<rparr>))) = full_storage \<and>
   snd (saveToLocal (editingData unlocked_app) (unlocked_app\<lparr>localStorage := full_storage\<rparr>)) =
     [Uncaught QuotaExceededError]"
proof -
  let ?s = "run [BioInput (js ''new'')] unlocked_app"
  let ?f = "unlocked_app\<lparr>localStorage := full_storage\<rparr>"
  have ok: "accepts (localStorage ?s) storage_key (JSON_stringify (heap ?s) (editingData ?s))"
    by (simp add: run_defs)
  have b: "bio (editingData ?s) = js ''new''"
    by (simp add: run_defs)
  have no: "\<not> accepts (localStorage ?f) storage_key (JSON_stringify (heap ?f) (editingData unlocked_app))"
    by (simp add: full_storage_def)
  have l: "localStorage ?f = full_storage"
    by simp
  from saveToLocal_not_atomic [of ?s "editingData ?s"] ok b
  have 1: "bio (data (run [BioInput (js ''new''), Commit] unlocked_app)) = js ''new'' \<and>
   getItem storage_key (localStorage (run [BioInput (js ''new''), Commit] unlocked_app)) =
     Some (JSON_stringify (heap ?s) (editingData ?s)) \<and>
   gate_of (run [BioInput (js ''new''), Commit] unlocked_app) = Closed"
    by simp
  from saveToLocal_not_atomic [of ?f "editingData unlocked_app"] no l
  have 2: "data (fst (saveToLocal (editingData unlocked_app) ?f)) = editingData unlocked_app \<and>
   localStorage (fst (saveToLocal (editingData unlocked_app) ?f)) = full_storage \<and>
   snd (saveToLocal (editingData unlocked_app) ?f) = [Uncaught QuotaExceededError]"
    by metis
  from 1 2 show ?thesis by blast
qed

text \<open>
  The claim as stated fails: with a browser that rejects the write, the visible data has the
  edited statement after the commit while no snapshot exists.
\<close>

theorem saveToLocal_diverges_counterexample:
  "bio (data (run [AdminTrigger, KeyInput (js ''0818''), PasswordSubmit, BioInput (js ''new''), Commit]
          (initial_app full_storage))) = js ''new'' \<and>
   getItem storage_key (localStorage
      (run [AdminTrigger, KeyInput (js ''0818''), PasswordSubmit, BioInput (js ''new''), Commit]
          (initial_app full_storage))) = None \<and>
   bio (data (run [AdminTrigger, KeyInput (js ''0818''), PasswordSubmit, BioInput (js ''new'')]
          (initial_app full_storage))) = bio DEFAULT_DATA \<and>
   bio DEFAULT_DATA \<noteq> js ''new''"
  by (simp add: run_defs full_storage_def DEFAULT_DATA_def js_def)

section \<open>Completion of an upload\<close>

lemma newWorks_frame:
  "careerObjs (snd (newWorks b i rs h)) = careerObjs h \<and>
   nextCareer (snd (newWorks b i rs h)) = nextCareer h \<and>
   nextWork h \<le> nextWork (snd (newWorks b i rs h)) \<and>
   (\<forall>r<nextWork h. workObjs (snd (newWorks b i rs h)) r = workObjs h r)"
proof (induction rs arbitrary: h)
  case Nil
  then show ?case by simp
next
  case (Cons r rs)
  let ?h' = "h\<lparr>workObjs := (workObjs h)(nextWork h := (workObjs h r)\<lparr>img := b\<rparr>),
              nextWork := Suc (nextWork h)\<rparr>"
  show ?case
  proof (cases "id_work (workObjs h r) = i")
    case True
    with Cons.IH [of ?h'] show ?thesis by (auto simp: Let_def)
  next
    case False
    with Cons.IH [of h] show ?thesis by (simp add: Let_def)
  qed
qed

lemma newWorks_view:
  "list_all (\<lambda>r. r < nextWork h) rs \<Longrightarrow>
   map (workObjs (snd (newWorks b i rs h))) (fst (newWorks b i rs h)) =
     map (\<lambda>w. if id_work w = i then w\<lparr>img := b\<rparr> else w) (map (workObjs h) rs)"
proof (induction rs arbitrary: h)
  case Nil
  then show ?case by simp
next
  case (Cons r rs)
  let ?h' = "h\<lparr>workObjs := (workObjs h)(nextWork h := (workObjs h r)\<lparr>img := b\<rparr>),
              nextWork := Suc (nextWork h)\<rparr>"
  from Cons.prems have r: "r < nextWork h" and rs: "list_all (\<lambda>r. r < nextWork h) rs" by simp_all
  show ?case
  proof (cases "id_work (workObjs h r) = i")
    case True
    from rs have rs': "list_all (\<lambda>r. r < nextWork ?h') rs"
      by (simp add: list_all_iff less_Suc_eq)
    from rs have same: "map (workObjs ?h') rs = map (workObjs h) rs"
      by (auto simp: list_all_iff)
    from newWorks_frame [of b i rs ?h']
    have "workObjs (snd (newWorks b i rs ?h')) (nextWork h) = (workObjs h r)\<lparr>img := b\<rparr>" by simp
    with True Cons.IH [OF rs'] same show ?thesis by (simp add: Let_def)
  next
    case False
    from newWorks_frame [of b i rs h] r
    have "workObjs (snd (newWorks b i rs h)) r = workObjs h r" by simp
    with False Cons.IH [OF rs] show ?thesis by (simp add: Let_def)
  qed
qed

text \<open>
  C10, as amended. A completion is applied in whatever state it arrives, whether or not the
  session that started the upload is still live: the working value becomes the value captured
  when the upload was started, with the image replaced (the portrait, or the image of every
  work with the id of the target). The completion by itself leaves the committed data, the
  snapshot and the gate as they are.
\<close>

theorem onloadend_applies_unconditionally:
  "allocated (heap s) (data s) \<Longrightarrow> allocated (heap s) (captured up) \<Longrightarrow>
     (target up = Profile \<longrightarrow>
        editingData (fst (onloadend up base64 s)) = (captured up)\<lparr>profileImg := base64\<rparr>) \<and>
     (\<forall>i. target up = Work i \<longrightarrow>
        profileImg (editingData (fst (onloadend up base64 s))) = profileImg (captured up) \<and>
        bio (editingData (fst (onloadend up base64 s))) = bio (captured up) \<and>
        career (editingData (fst (onloadend up base64 s))) = career (captured up) \<and>
        map (workObjs (heap (fst (onloadend up base64 s))))
            (works (editingData (fst (onloadend up base64 s)))) =
          map (\<lambda>w. if id_work w = i then w\<lparr>img := base64\<rparr> else w)
            (map (workObjs (heap s)) (works (captured up)))) \<and>
     view (heap (fst (onloadend up base64 s))) (data (fst (onloadend up base64 s))) =
       view (heap s) (data s) \<and>
     data (fst (onloadend up base64 s)) = data s \<and>
     localStorage (fst (onloadend up base64 s)) = localStorage s \<and>
     gate_of (fst (onloadend up base64 s)) = gate_of s \<and>
     snd (onloadend up base64 s) = []"
proof -
  assume ad: "allocated (heap s) (data s)" and ac: "allocated (heap s) (captured up)"
  let ?s' = "fst (onloadend up base64 s)"
  show ?thesis
  proof (cases "target up")
    case Profile
    then show ?thesis
      by (simp add: onloadend_def gate_of_def)
  next
    case (Work i)
    let ?res = "newWorks base64 i (works (captured up)) (heap s)"
    from ac have rs: "list_all (\<lambda>r. r < nextWork (heap s)) (works (captured up))"
      by (simp add: allocated_def)
    have s': "?s' = s\<lparr>heap := snd ?res, editingData := (captured up)\<lparr>works := fst ?res\<rparr>\<rparr>"
      using Work by (simp add: onloadend_def Let_def)
    have w: "map (workObjs (heap ?s')) (works (editingData ?s')) =
        map (\<lambda>w. if id_work w = i then w\<lparr>img := base64\<rparr> else w)
          (map (workObjs (heap s)) (works (captured up)))"
      unfolding s' using newWorks_view [OF rs, of base64 i] by simp
    from ad have "\<forall>r\<in>set (works (data s)). r < nextWork (heap s)"
      by (simp add: allocated_def list_all_iff)
    with newWorks_frame [of base64 i "works (captured up)" "heap s"]
    have v: "view (heap ?s') (data ?s') = view (heap s) (data s)"
      unfolding s' by (auto simp: view_def)
    from Work w v show ?thesis
      by (simp add: onloadend_def Let_def gate_of_def)
  qed
qed

text \<open>
  A session in which the statement was edited and an upload of a portrait was started; the
  closure of that upload; and the state after that session was cancelled and a new one was
  opened and unlocked.
\<close>

definition draft_session :: app where
  "draft_session =
     run [AdminTrigger, KeyInput (js ''0818''), PasswordSubmit, BioInput (js ''draft'')]
       (initial_app fresh_storage)"

definition draft_upload :: upload where
  "draft_upload = \<lparr>captured = editingData draft_session, target = Profile\<rparr>"

definition next_session :: app where
  "next_session =
     run [CloseAdmin, AdminTrigger, KeyInput (js ''0818''), PasswordSubmit] draft_session"

lemmas fixture_defs = draft_session_def draft_upload_def next_session_def handleFileUpload_def
  DEFAULT_DATA_def module_heap_def gate_of_def allocated_def

theorem onloadend_applies_unconditionally_witness:
  "gate_of next_session = Unlocked \<and>
   editingData (fst (onloadend draft_upload (js ''data:image/png;base64,AAAA'') next_session)) =
     (captured draft_upload)\<lparr>profileImg := js ''data:image/png;base64,AAAA''\<rparr> \<and>
   data (fst (onloadend draft_upload (js ''data:image/png;base64,AAAA'') next_session)) =
     data next_session \<and>
   map (\<lambda>w. (id_work w, img w))
     (map (workObjs (heap (fst (onloadend \<lparr>captured = editingData next_session, target = Work 2\<rparr>
                                  (js ''data:image/png;base64,BBBB'') next_session))))
        (works (editingData (fst (onloadend \<lparr>captured = editingData next_session, target = Work 2\<rparr>
                                  (js ''data:image/png;base64,BBBB'') next_session))))) =
     [(1, []), (2, js ''data:image/png;base64,BBBB''), (3, []), (4, []), (5, []), (6, [])]"
proof -
  let ?up2 = "\<lparr>captured = editingData next_session, target = Work 2\<rparr>"
  have g: "gate_of next_session = Unlocked"
    by (simp add: fixture_defs run_defs)
  have a1: "allocated (heap next_session) (data next_session)"
    by (simp add: fixture_defs run_defs)
  have a2: "allocated (heap next_session) (captured draft_upload)"
    by (simp add: fixture_defs run_defs)
  have a3: "allocated (heap next_session) (captured ?up2)"
    by (simp add: fixture_defs run_defs)
  have t: "target draft_upload = Profile"
    by (simp add: draft_upload_def)
  have w: "map (workObjs (heap next_session)) (works (captured ?up2)) =
      map (workObjs module_heap) [0, 1, 2, 3, 4, 5]"
    by (simp add: fixture_defs run_defs)
  from onloadend_applies_unconditionally [OF a1 a2, of "js ''data:image/png;base64,AAAA''"] t
  have p: "editingData (fst (onloadend draft_upload (js ''data:image/png;base64,AAAA'') next_session)) =
       (captured draft_upload)\<lparr>profileImg := js ''data:image/png;base64,AAAA''\<rparr>"
     "data (fst (onloadend draft_upload (js ''data:image/png;base64,AAAA'') next_session)) =
       data next_session"
    by blast+
  from onloadend_applies_unconditionally [OF a1 a3, of "js ''data:image/png;base64,BBBB''"]
  have "map (workObjs (heap (fst (onloadend ?up2 (js ''data:image/png;base64,BBBB'') next_session))))
          (works (editingData (fst (onloadend ?up2 (js ''data:image/png;base64,BBBB'') next_session)))) =
        map (\<lambda>w. if id_work w = 2 then w\<lparr>img := js ''data:image/png;base64,BBBB''\<rparr> else w)
          (map (workObjs (heap next_session)) (works (captured ?up2)))"
    by simp
  then have q: "map (\<lambda>w. (id_work w, img w))
      (map (workObjs (heap (fst (onloadend ?up2 (js ''data:image/png;base64,BBBB'') next_session))))
          (works (editingData (fst (onloadend ?up2 (js ''data:image/png;base64,BBBB'') next_session))))) =
      [(1, []), (2, js ''data:image/png;base64,BBBB''), (3, []), (4, []), (5, []), (6, [])]"
    unfolding w by (simp add: module_heap_def)
  from g p q show ?thesis by blast
qed

text \<open>
  The claim as stated fails: the upload was started in a session that was then cancelled;
  its completion arrives in the next session, is not discarded, and replaces the working
  value of that session by the one of the cancelled session (the statement \<open>draft\<close> comes
  back); a commit then makes it the committed data.
\<close>

theorem onloadend_stale_counterexample:
  "handleFileUpload True Profile draft_session = Some draft_upload \<and>
   gate_of (fst (closeAdmin draft_session)) = Closed \<and>
   gate_of next_session = Unlocked \<and>
   bio (editingData next_session) = bio DEFAULT_DATA \<and>
   bio DEFAULT_DATA \<noteq> js ''draft'' \<and>
   bio (editingData (run [LoadEnd draft_upload (js ''data:image/png;base64,AAAA'')] next_session)) =
     js ''draft'' \<and>
   profileImg (editingData (run [LoadEnd draft_upload (js ''data:image/png;base64,AAAA'')] next_session)) =
     js ''data:image/png;base64,AAAA'' \<and>
   bio (data (run [LoadEnd draft_upload (js ''data:image/png;base64,AAAA''), Commit] next_session)) =
     js ''draft''"
  by (simp add: fixture_defs run_defs js_def)

section \<open>Edits in place, cancel and reset\<close>

text \<open>
  The handlers that build a new value (the two text inputs, CREATE NEW ENTRY, PURGE) leave
  the committed data and the snapshot as they are.
\<close>

lemma copying_edits_keep_committed_data:
  assumes "allocated (heap s) (data s)"
    and "e = ProfileImageInput v \<or> e = BioInput v \<or> e = CreateEntry now \<or> e = Purge idx"
  shows "view (heap (fst (fire e s))) (data (fst (fire e s))) = view (heap s) (data s) \<and>
         localStorage (fst (fire e s)) = localStorage s"
proof -
  from assms(1) have "\<forall>r\<in>set (works (data s)). r < nextWork (heap s)"
    by (simp add: allocated_def list_all_iff)
  with assms(2) show ?thesis
    by (auto simp: view_def setProfileImage_def setBio_def addWork_def removeWork_def Let_def)
qed

text \<open>
  The field inputs of career rows and works do not: when the working value is the committed
  one (as it is right after the gear is clicked), the object they write is an object of the
  committed data.
\<close>

lemma in_place_edits_reach_committed_data:
  assumes "editingData s = data s"
  shows "idx < length (career (data s)) \<Longrightarrow>
         data (fst (updateCareerItem idx f v s)) = data s \<and>
         careerObjs (heap (fst (updateCareerItem idx f v s))) (career (data s) ! idx) =
           set_career_field f v (careerObjs (heap s) (career (data s) ! idx))"
    and "idx < length (works (data s)) \<Longrightarrow>
         data (fst (updateWorkField idx g v s)) = data s \<and>
         workObjs (heap (fst (updateWorkField idx g v s))) (works (data s) ! idx) =
           set_work_field g v (workObjs (heap s) (works (data s) ! idx))"
  using assms by (simp_all add: updateCareerItem_def updateWorkField_def Let_def)

text \<open>
  A fresh page without a snapshot; the editor is opened and unlocked, the date of the first
  career row and the title of the first work are typed over, and the editor is cancelled.
\<close>

definition edited_then_cancelled :: app where
  "edited_then_cancelled =
     run [AdminTrigger, KeyInput (js ''0818''), PasswordSubmit,
          CareerInput 0 Date (js ''X''), WorkInput 0 WTitle (js ''Y''), CloseAdmin]
       (initial_app fresh_storage)"

text \<open>
  C2 (the code at the failing input). Cancel isolation requires the committed data after the
  cancel to read as before the session. Here \<open>data\<close> is still the same reference and was
  never set, yet it reads differently: the first date is \<open>X\<close> and the first title is \<open>Y\<close>.
  The field inputs of career rows and works write into the item objects that \<open>data\<close>
  shares with \<open>editingData\<close>.
\<close>

theorem cancel_after_field_edit:
  "gate_of edited_then_cancelled = Closed \<and>
   data edited_then_cancelled = data (initial_app fresh_storage) \<and>
   map date (map (careerObjs (heap (initial_app fresh_storage)))
               (career (data (initial_app fresh_storage)))) =
     [[0x0032, 0x0030, 0x0032, 0x0032, 0x0020, 0x2014, 0x0020, 0x0032, 0x0030, 0x0032, 0x0035],
      js ''2021'',
      [0x0032, 0x0030, 0x0031, 0x0032, 0x0020, 0x2014, 0x0020, 0x0032, 0x0030, 0x0031, 0x0037]] \<and>
   map date (map (careerObjs (heap edited_then_cancelled)) (career (data edited_then_cancelled))) =
     [js ''X'', js ''2021'',
      [0x0032, 0x0030, 0x0031, 0x0032, 0x0020, 0x2014, 0x0020, 0x0032, 0x0030, 0x0031, 0x0037]] \<and>
   title_work (workObjs (heap (initial_app fresh_storage))
                 (hd (works (data (initial_app fresh_storage))))) = js ''Visual Archive_1'' \<and>
   title_work (workObjs (heap edited_then_cancelled) (hd (works (data edited_then_cancelled)))) =
     js ''Y'' \<and>
   view (heap edited_then_cancelled) (data edited_then_cancelled) \<noteq>
     view (heap (initial_app fresh_storage)) (data (initial_app fresh_storage))"
  by (simp add: edited_then_cancelled_def run_defs gate_of_def DEFAULT_DATA_def module_heap_def
      Let_def view_def js_def)

text \<open>
  What \<open>resetToDefault\<close> does when confirmed: \<open>data\<close> is the constant \<open>DEFAULT_DATA\<close>, the
  snapshot is removed, and a second reset changes nothing; when not confirmed nothing happens.
\<close>

lemma resetToDefault_confirmed:
  "data (fst (resetToDefault True s)) = DEFAULT_DATA \<and>
   getItem storage_key (localStorage (fst (resetToDefault True s))) = None \<and>
   fst (resetToDefault True (fst (resetToDefault True s))) = fst (resetToDefault True s) \<and>
   fst (resetToDefault False s) = s"
  by (simp add: resetToDefault_def removeItem_def getItem_def)

text \<open>The same session, ended by a confirmed FACTORY RESET instead of a cancel.\<close>

definition edited_then_reset :: app where
  "edited_then_reset =
     run [AdminTrigger, KeyInput (js ''0818''), PasswordSubmit,
          CareerInput 0 Date (js ''X''), ResetToDefault True]
       (initial_app fresh_storage)"

text \<open>
  C9 (the code at the failing input). Reset must restore the in-memory data to the built-in
  defaults from every prior state. Here the reset sets \<open>data\<close> to \<open>DEFAULT_DATA\<close> and removes
  the snapshot, but the items of \<open>DEFAULT_DATA\<close> were written in place by the edit before:
  the data after the reset shows the date \<open>X\<close>, not the date of the literal.
\<close>

theorem reset_after_field_edit:
  "data edited_then_reset = DEFAULT_DATA \<and>
   getItem storage_key (localStorage edited_then_reset) = None \<and>
   map date (map (careerObjs module_heap) (career DEFAULT_DATA)) =
     [[0x0032, 0x0030, 0x0032, 0x0032, 0x0020, 0x2014, 0x0020, 0x0032, 0x0030, 0x0032, 0x0035],
      js ''2021'',
      [0x0032, 0x0030, 0x0031, 0x0032, 0x0020, 0x2014, 0x0020, 0x0032, 0x0030, 0x0031, 0x0037]] \<and>
   map date (map (careerObjs (heap edited_then_reset)) (career (data edited_then_reset))) =
     [js ''X'', js ''2021'',
      [0x0032, 0x0030, 0x0031, 0x0032, 0x0020, 0x2014, 0x0020, 0x0032, 0x0030, 0x0031, 0x0037]] \<and>
   view (heap edited_then_reset) (data edited_then_reset) \<noteq> view module_heap DEFAULT_DATA"
  by (simp add: edited_then_reset_def run_defs DEFAULT_DATA_def module_heap_def Let_def view_def
      js_def)

section \<open>Well-formed states\<close>

text \<open>
  In every state that the component can reach, the item addresses of \<open>data\<close>, of
  \<open>editingData\<close> and of \<open>DEFAULT_DATA\<close> are allocated: it holds after mount, and every event
  keeps it (for the completion of an upload, given that the captured value was allocated
  when the upload started; the store only grows).
\<close>

definition well_formed :: "app \<Rightarrow> bool" where
  "well_formed s \<longleftrightarrow>
     allocated (heap s) (data s) \<and> allocated (heap s) (editingData s) \<and>
     allocated (heap s) DEFAULT_DATA"

lemma allocated_mono:
  "allocated h d \<Longrightarrow> nextCareer h \<le> nextCareer h' \<Longrightarrow> nextWork h \<le> nextWork h' \<Longrightarrow>
   allocated h' d"
  by (auto simp: allocated_def list_all_iff)

lemma well_formed_initial: "well_formed (initial_app st)"
  by (simp add: well_formed_def initial_app_def allocated_def DEFAULT_DATA_def module_heap_def)

lemma newWorks_allocated:
  "list_all (\<lambda>r. r < nextWork h) rs \<Longrightarrow>
   list_all (\<lambda>r. r < nextWork (snd (newWorks b i rs h))) (fst (newWorks b i rs h))"
proof (induction rs arbitrary: h)
  case Nil
  then show ?case by simp
next
  case (Cons r rs)
  let ?h' = "h\<lparr>workObjs := (workObjs h)(nextWork h := (workObjs h r)\<lparr>img := b\<rparr>),
              nextWork := Suc (nextWork h)\<rparr>"
  from Cons.prems have r: "r < nextWork h" and rs: "list_all (\<lambda>r. r < nextWork h) rs" by simp_all
  show ?case
  proof (cases "id_work (workObjs h r) = i")
    case True
    from rs have "list_all (\<lambda>r. r < nextWork ?h') rs"
      by (simp add: list_all_iff less_Suc_eq)
    from Cons.IH [OF this] newWorks_frame [of b i rs ?h'] True show ?thesis
      by (simp add: Let_def)
  next
    case False
    from Cons.IH [OF rs] newWorks_frame [of b i rs h] r False show ?thesis
      by (simp add: Let_def)
  qed
qed

lemma heap_grows:
  "nextCareer (heap s) \<le> nextCareer (heap (fst (fire e s))) \<and>
   nextWork (heap s) \<le> nextWork (heap (fst (fire e s)))"
proof (cases e)
  case (LoadEnd up b)
  then show ?thesis
    using newWorks_frame [of b _ "works (captured up)" "heap s"]
    by (simp add: onloadend_def Let_def split: upload_target.splits)
qed (simp_all add: run_defs Let_def split: sum.splits)

lemma well_formed_fire:
  assumes "well_formed s"
    and "\<And>up b. e = LoadEnd up b \<Longrightarrow> allocated (heap s) (captured up)"
  shows "well_formed (fst (fire e s))"
proof -
  note grow = heap_grows [of s e]
  from assms(1) have d: "allocated (heap s) (data s)" and ed: "allocated (heap s) (editingData s)"
    and df: "allocated (heap s) DEFAULT_DATA"
    by (simp_all add: well_formed_def)
  have mono: "allocated (heap (fst (fire e s))) x" if "allocated (heap s) x" for x
    using that grow by (blast intro: allocated_mono)
  show ?thesis
  proof (cases e)
    case (LoadEnd up b)
    from assms(2) [OF LoadEnd] have c: "allocated (heap s) (captured up)" .
    have "allocated (heap (fst (fire e s))) (editingData (fst (fire e s)))"
    proof (cases "target up")
      case Profile
      with c LoadEnd show ?thesis
        by (simp add: onloadend_def allocated_def)
    next
      case (Work i)
      from c have "list_all (\<lambda>r. r < nextWork (heap s)) (works (captured up))"
        by (simp add: allocated_def)
      from newWorks_allocated [OF this, of b i] newWorks_frame [of b i "works (captured up)" "heap s"]
        c Work LoadEnd
      show ?thesis
        by (simp add: onloadend_def allocated_def Let_def)
    qed
    moreover have "data (fst (fire e s)) = data s"
      using LoadEnd by (simp add: onloadend_def Let_def split: upload_target.splits)
    ultimately show ?thesis
      using mono [OF d] mono [OF df] by (simp add: well_formed_def)
  next
    case (CreateEntry now)
    with d ed df show ?thesis
      by (auto simp: well_formed_def addWork_def allocated_def Let_def list_all_iff)
  next
    case (Purge idx)
    have "set (works (editingData (fst (removeWork idx s)))) \<subseteq> set (works (editingData s))"
      unfolding removeWork_works by (auto dest: in_set_takeD in_set_dropD)
    moreover have "career (editingData (fst (removeWork idx s))) = career (editingData s)"
      "heap (fst (removeWork idx s)) = heap s" "data (fst (removeWork idx s)) = data s"
      by (simp_all add: removeWork_def Let_def)
    ultimately show ?thesis
      using Purge d ed df by (auto simp: well_formed_def allocated_def list_all_iff)
  next
    case (CareerInput idx f v)
    with d ed df show ?thesis
      by (auto simp: well_formed_def updateCareerItem_def allocated_def Let_def)
  next
    case (WorkInput idx f v)
    with d ed df show ?thesis
      by (auto simp: well_formed_def updateWorkField_def allocated_def Let_def)
  next
    case Commit
    with d ed df show ?thesis
      by (auto simp: well_formed_def saveToLocal_def allocated_def split: sum.splits)
  qed (use d ed df in \<open>simp_all add: well_formed_def run_defs allocated_def\<close>)
qed

lemma alloc_careers_allocated:
  "list_all (\<lambda>r. r < nextCareer (snd (alloc_careers cs h))) (fst (alloc_careers cs h))"
proof (induction cs arbitrary: h)
  case Nil
  then show ?case by simp
next
  case (Cons c cs)
  let ?h' = "h\<lparr>careerObjs := (careerObjs h)(nextCareer h := c), nextCareer := Suc (nextCareer h)\<rparr>"
  from alloc_careers_frame [of cs ?h'] Cons.IH [of ?h'] show ?case
    by (simp add: Let_def)
qed

lemma alloc_works_allocated:
  "list_all (\<lambda>r. r < nextWork (snd (alloc_works ws h))) (fst (alloc_works ws h))"
proof (induction ws arbitrary: h)
  case Nil
  then show ?case by simp
next
  case (Cons w ws)
  let ?h' = "h\<lparr>workObjs := (workObjs h)(nextWork h := w), nextWork := Suc (nextWork h)\<rparr>"
  from alloc_works_frame [of ws ?h'] Cons.IH [of ?h'] show ?case
    by (simp add: Let_def)
qed

lemma useEffect_load_result:
  assumes "fst (useEffect_load s) = Inr s'"
  shows "s' = s \<or> (\<exists>v. s' = s\<lparr>data := fst (install v (heap s)),
      editingData := fst (install v (heap s)), heap := snd (install v (heap s))\<rparr>)"
proof (cases "getItem storage_key (localStorage s)")
  case None
  with assms show ?thesis by (simp add: useEffect_load_def)
next
  case (Some saved)
  show ?thesis
  proof (cases "saved = []")
    case True
    with Some assms show ?thesis by (simp add: useEffect_load_def)
  next
    case False
    show ?thesis
    proof (cases "JSON_parse saved")
      case None
      with Some False assms show ?thesis by (simp add: useEffect_load_def)
    next
      case parsed: (Some parsed)
      show ?thesis
      proof (cases "site_of parsed")
        case None
        with Some False parsed assms show ?thesis by (simp add: useEffect_load_def)
      next
        case v: (Some v)
        with Some False parsed assms
        have "s' = s\<lparr>data := fst (install v (heap s)),
          editingData := fst (install v (heap s)), heap := snd (install v (heap s))\<rparr>"
          by (simp add: useEffect_load_def Let_def)
        then show ?thesis by blast
      qed
    qed
  qed
qed

lemma install_allocated: "allocated (snd (install v h)) (fst (install v h))"
proof -
  obtain p b cs ws where v: "v = (p, b, cs, ws)" by (cases v) auto
  let ?rc = "alloc_careers cs h"
  let ?rw = "alloc_works ws (snd ?rc)"
  have c: "list_all (\<lambda>r. r < nextCareer (snd ?rc)) (fst ?rc)"
    by (rule alloc_careers_allocated)
  have "nextCareer (snd ?rw) = nextCareer (snd ?rc)"
    using alloc_works_frame [of ws "snd ?rc"] by blast
  with c have c': "list_all (\<lambda>r. r < nextCareer (snd ?rw)) (fst ?rc)" by simp
  have w: "list_all (\<lambda>r. r < nextWork (snd ?rw)) (fst ?rw)"
    by (rule alloc_works_allocated)
  from c' w show ?thesis
    unfolding v install_def allocated_def by (simp add: Let_def)
qed

lemma install_grows:
  "nextCareer h \<le> nextCareer (snd (install v h)) \<and> nextWork h \<le> nextWork (snd (install v h))"
proof -
  obtain p b cs ws where v: "v = (p, b, cs, ws)" by (cases v) auto
  let ?rc = "alloc_careers cs h"
  let ?rw = "alloc_works ws (snd ?rc)"
  have "nextCareer (snd ?rw) = nextCareer h + length cs"
    using alloc_works_frame [of ws "snd ?rc"] alloc_careers_frame [of cs h] by simp
  moreover have "nextWork (snd ?rw) = nextWork h + length ws"
    using alloc_works_frame [of ws "snd ?rc"] alloc_careers_frame [of cs h] by simp
  ultimately show ?thesis
    unfolding v install_def by (simp add: Let_def)
qed

lemma well_formed_install:
  assumes "well_formed s"
  shows "well_formed (s\<lparr>data := fst (install v (heap s)),
      editingData := fst (install v (heap s)), heap := snd (install v (heap s))\<rparr>)"
proof -
  have "allocated (heap s) DEFAULT_DATA" using assms by (simp add: well_formed_def)
  then have "allocated (snd (install v (heap s))) DEFAULT_DATA"
    using install_grows [of "heap s" v] by (blast intro: allocated_mono)
  with install_allocated [of v "heap s"] show ?thesis
    by (simp add: well_formed_def)
qed

lemma well_formed_mount:
  assumes "fst (mount st) = Inr s'"
  shows "well_formed s'"
proof -
  from assms have "fst (useEffect_load (initial_app st)) = Inr s'"
    by (simp only: mount_state)
  from useEffect_load_result [OF this] consider
      "s' = initial_app st"
    | v where "s' = (initial_app st)\<lparr>data := fst (install v (heap (initial_app st))),
        editingData := fst (install v (heap (initial_app st))),
        heap := snd (install v (heap (initial_app st)))\<rparr>"
    by blast
  then show ?thesis
  proof cases
    case 1
    then show ?thesis by (simp only: well_formed_initial)
  next
    case 2
    then show ?thesis
      by (simp only: well_formed_install [OF well_formed_initial])
  qed
qed

end
